theory Spec2Isabelle
  imports Main "HOL-Library.Sublist" "HOL-Library.Product_Lexorder" "HOL-Library.Multiset"
begin

section \<open>The two tables\<close>

text \<open>
  The resolution logic of the catalog portal lives in two SQL views,
  \<open>cps.v_cps_catalog_effective\<close> and \<open>cps.v_cps_catalog_effective_validated\<close>, each
  defined twice: in \<open>update_view_for_apply_for_all.sql\<close> and, later, in
  \<open>update_views_for_device_type.sql\<close>. Both read the override log
  \<open>cps.user_input_cps_catalog\<close> (alias \<open>u\<close>) and the base table
  \<open>cps.cps_catalog_gold\<close> (alias \<open>g\<close>). A table is a list of rows; a column that
  the views treat as nullable is an \<open>option\<close>, with \<open>None\<close> for SQL's NULL.

  \<open>u.id\<close> is the key of the log. \<open>u.apply_for_all\<close> is nullable (the views test
  \<open>IS NULL\<close>); \<open>cps_id\<close> is nullable (the client tests for a device without one);
  \<open>is_validated\<close> is a plain boolean and \<open>new_value\<close> a plain string, as the
  data model of the specification has them (a NULL \<open>new_value\<close> would resolve as
  the empty string does, \<open>NULLIF\<close> sending both to NULL). Timestamps are integers.
\<close>

record user_input_cps_catalog =
  u_id :: int
  u_device_uuid :: string
  u_cps_id :: "string option"
  u_field_name :: string
  u_new_value :: string
  u_is_validated :: bool
  u_changed_at :: int
  u_apply_for_all :: "bool option"
  u_editor_user_id :: string
  u_editor_user_name :: string
  u_note :: "string option"

text \<open>
  The base table has one text column per catalog field, read here by column name
  (\<open>g_text g ''vendor''\<close> is \<open>g.vendor\<close>), and the numeric column \<open>risk_score\<close>, whose
  values are of an arbitrary type \<open>'n\<close> standing for \<open>numeric(4,1)\<close>.
\<close>

record 'n cps_catalog_gold =
  g_device_uuid :: string
  g_cps_id :: "string option"
  g_text :: "string \<Rightarrow> string option"
  g_risk_score :: "'n option"
  g_created_at :: int
  g_updated_at :: int

section \<open>SQL building blocks\<close>

text \<open>\<open>a = b\<close> on nullable operands, used as a join condition: NULL never matches.\<close>

definition sql_eq :: "'a option \<Rightarrow> 'a option \<Rightarrow> bool" where
  "sql_eq a b = (case a of None \<Rightarrow> False | Some x \<Rightarrow> (case b of None \<Rightarrow> False | Some y \<Rightarrow> x = y))"

text \<open>\<open>NULLIF(a, b)\<close> with a non-null second operand, and \<open>COALESCE\<close>.\<close>

definition nullif :: "'a option \<Rightarrow> 'a \<Rightarrow> 'a option" where
  "nullif a b = (case a of None \<Rightarrow> None | Some x \<Rightarrow> if x = b then None else Some x)"

fun coalesce :: "'a option list \<Rightarrow> 'a option" where
  "coalesce [] = None"
| "coalesce (None # as) = coalesce as"
| "coalesce (Some a # as) = Some a"

text \<open>
  \<open>ROW_NUMBER() OVER (PARTITION BY k ORDER BY o)\<close>: the number of a row is one more
  than the number of rows of its partition that the ordering puts before it. The
  orderings of the views end in \<open>u.id DESC\<close>, the key of the log, so no two rows of a
  partition tie.
\<close>

definition row_number :: "('r \<Rightarrow> 'k) \<Rightarrow> ('r \<Rightarrow> 'r \<Rightarrow> bool) \<Rightarrow> 'r list \<Rightarrow> 'r \<Rightarrow> nat" where
  "row_number partition_by order_by rows r =
     Suc (length (filter (\<lambda>s. partition_by s = partition_by r \<and> order_by s r) rows))"

definition with_rn :: "('r \<Rightarrow> 'k) \<Rightarrow> ('r \<Rightarrow> 'r \<Rightarrow> bool) \<Rightarrow> 'r list \<Rightarrow> ('r \<times> nat) list" where
  "with_rn partition_by order_by rows = map (\<lambda>r. (r, row_number partition_by order_by rows r)) rows"

text \<open>
  \<open>LEFT JOIN cte l ON cond(l) AND l.rn = 1\<close>: the matching row, or NULLs when there
  is none. With a key in the ordering at most one row of a partition has number 1.
\<close>

definition left_join_rn1 :: "('r \<times> nat) list \<Rightarrow> ('r \<Rightarrow> bool) \<Rightarrow> 'r option" where
  "left_join_rn1 cte on = (case filter (\<lambda>(r, rn). on r \<and> rn = 1) cte of [] \<Rightarrow> None | (r, _) # _ \<Rightarrow> Some r)"

section \<open>The common table expressions\<close>

text \<open>
  The view read: \<open>Effective\<close> is \<open>v_cps_catalog_effective\<close>, \<open>Validated\<close> is
  \<open>v_cps_catalog_effective_validated\<close>. The migration that defines it:
  \<open>ApplyForAll\<close> is \<open>update_view_for_apply_for_all.sql\<close>, \<open>DeviceType\<close> is
  \<open>update_views_for_device_type.sql\<close>.
\<close>

datatype mode = Effective | Validated

datatype migration = ApplyForAll | DeviceType

text \<open>
  \<open>ORDER BY u.is_validated DESC, u.changed_at DESC, u.id DESC\<close> in the effective
  view, \<open>ORDER BY u.changed_at DESC, u.id DESC\<close> in the validated one:
  \<open>order_by m a b\<close> holds when \<open>a\<close> comes strictly before \<open>b\<close>.
\<close>

definition newer :: "user_input_cps_catalog \<Rightarrow> user_input_cps_catalog \<Rightarrow> bool" where
  "newer a b = (u_changed_at a > u_changed_at b \<or> (u_changed_at a = u_changed_at b \<and> u_id a > u_id b))"

fun order_by :: "mode \<Rightarrow> user_input_cps_catalog \<Rightarrow> user_input_cps_catalog \<Rightarrow> bool" where
  "order_by Effective a b =
     ((u_is_validated a \<and> \<not> u_is_validated b) \<or> (u_is_validated a = u_is_validated b \<and> newer a b))"
| "order_by Validated a b = newer a b"

text \<open>The \<open>WHERE\<close> clauses of \<open>latest_device\<close> and of \<open>latest_cps_id\<close>.\<close>

fun where_device :: "mode \<Rightarrow> user_input_cps_catalog \<Rightarrow> bool" where
  "where_device Effective u = (u_apply_for_all u = Some False \<or> u_apply_for_all u = None)"
| "where_device Validated u =
     ((u_apply_for_all u = Some False \<or> u_apply_for_all u = None) \<and> u_is_validated u = True)"

fun where_cps_id :: "mode \<Rightarrow> user_input_cps_catalog \<Rightarrow> bool" where
  "where_cps_id Effective u = (u_apply_for_all u = Some True)"
| "where_cps_id Validated u = (u_apply_for_all u = Some True \<and> u_is_validated u = True)"

text \<open>\<open>latest_device\<close>: the device-specific overrides, numbered per device and field.\<close>

definition latest_device :: "mode \<Rightarrow> user_input_cps_catalog list \<Rightarrow> (user_input_cps_catalog \<times> nat) list" where
  "latest_device m log =
     with_rn (\<lambda>u. (u_device_uuid u, u_field_name u)) (order_by m) (filter (where_device m) log)"

text \<open>
  \<open>latest_cps_id\<close>: the overrides applied to a whole cps_id, numbered per cps_id and
  field. The first migration partitions by the log's own column \<open>u.cps_id\<close>; the
  second joins the log to the base table on \<open>device_uuid\<close> and partitions by
  \<open>g.cps_id\<close>. A row of the expression is the cps_id paired with the override.
\<close>

fun cps_id_rows :: "migration \<Rightarrow> mode \<Rightarrow> 'n cps_catalog_gold list \<Rightarrow> user_input_cps_catalog list
    \<Rightarrow> (string option \<times> user_input_cps_catalog) list" where
  "cps_id_rows ApplyForAll m gold log = map (\<lambda>u. (u_cps_id u, u)) (filter (where_cps_id m) log)"
| "cps_id_rows DeviceType m gold log =
     filter (\<lambda>(c, u). where_cps_id m u)
       (concat (map (\<lambda>u. map (\<lambda>g. (g_cps_id g, u)) (filter (\<lambda>g. u_device_uuid u = g_device_uuid g) gold)) log))"

definition latest_cps_id :: "migration \<Rightarrow> mode \<Rightarrow> 'n cps_catalog_gold list \<Rightarrow> user_input_cps_catalog list
    \<Rightarrow> ((string option \<times> user_input_cps_catalog) \<times> nat) list" where
  "latest_cps_id mig m gold log =
     with_rn (\<lambda>(c, u). (c, u_field_name u)) (\<lambda>(c, u) (c', u'). order_by m u u') (cps_id_rows mig m gold log)"

section \<open>The select list\<close>

text \<open>
  \<open>LEFT JOIN latest_device l ON l.device_uuid = g.device_uuid AND l.field_name = f AND l.rn = 1\<close>
  and
  \<open>LEFT JOIN latest_cps_id l ON l.cps_id = g.cps_id AND l.field_name = f AND l.rn = 1\<close>.
\<close>

definition join_device :: "mode \<Rightarrow> user_input_cps_catalog list \<Rightarrow> 'n cps_catalog_gold \<Rightarrow> string
    \<Rightarrow> user_input_cps_catalog option" where
  "join_device m log g f =
     left_join_rn1 (latest_device m log) (\<lambda>l. u_device_uuid l = g_device_uuid g \<and> u_field_name l = f)"

definition join_cps_id :: "migration \<Rightarrow> mode \<Rightarrow> 'n cps_catalog_gold list \<Rightarrow> user_input_cps_catalog list
    \<Rightarrow> 'n cps_catalog_gold \<Rightarrow> string \<Rightarrow> user_input_cps_catalog option" where
  "join_cps_id mig m gold log g f =
     map_option snd
       (left_join_rn1 (latest_cps_id mig m gold log) (\<lambda>(c, l). sql_eq c (g_cps_id g) \<and> u_field_name l = f))"

text \<open>
  A text column of the select list:
  \<open>COALESCE(NULLIF(l_f_dev.new_value, ''), NULLIF(l_f_cps.new_value, ''), g.f)\<close>.
  Every text column of the four views has this shape, the two joins and the base
  column carrying the name of the column (\<open>g.device_type::text\<close> is a text as well).
\<close>

definition text_column :: "migration \<Rightarrow> mode \<Rightarrow> 'n cps_catalog_gold list \<Rightarrow> user_input_cps_catalog list
    \<Rightarrow> 'n cps_catalog_gold \<Rightarrow> string \<Rightarrow> string option" where
  "text_column mig m gold log g f =
     coalesce [nullif (map_option u_new_value (join_device m log g f)) '''',
               nullif (map_option u_new_value (join_cps_id mig m gold log g f)) '''',
               g_text g f]"

text \<open>
  Which of the three operands of the \<open>COALESCE\<close> supplies the value: the joined
  device row when its value is not the empty string, else the joined cps_id row
  when its value is not the empty string, else the base table.
\<close>

datatype source = DeviceOverride user_input_cps_catalog | GroupOverride user_input_cps_catalog | BaseRecord

definition non_blank :: "user_input_cps_catalog option \<Rightarrow> user_input_cps_catalog option" where
  "non_blank l = (case l of None \<Rightarrow> None | Some u \<Rightarrow> if u_new_value u = '''' then None else Some u)"

definition selected :: "migration \<Rightarrow> mode \<Rightarrow> 'n cps_catalog_gold list \<Rightarrow> user_input_cps_catalog list
    \<Rightarrow> 'n cps_catalog_gold \<Rightarrow> string \<Rightarrow> source" where
  "selected mig m gold log g f =
     (case non_blank (join_device m log g f) of
        Some d \<Rightarrow> DeviceOverride d
      | None \<Rightarrow> (case non_blank (join_cps_id mig m gold log g f) of
                   Some c \<Rightarrow> GroupOverride c
                 | None \<Rightarrow> BaseRecord))"

text \<open>
  The numeric column of the first migration,
  \<open>COALESCE(NULLIF(l_risk_dev.new_value, ''), NULLIF(l_risk_cps.new_value, ''), g.risk_score::text)::numeric(4, 1)\<close>.
  The two casts are PostgreSQL's: \<open>numeric_out\<close> prints a number, \<open>numeric_in\<close>
  reads a text and returns \<open>None\<close> where PostgreSQL raises (invalid input syntax,
  numeric field overflow). A raised error ends the evaluation of the row; the cast
  of NULL is NULL.
\<close>

datatype sql_error = NumericCastFailed

definition cast_numeric :: "(string \<Rightarrow> 'n option) \<Rightarrow> string option \<Rightarrow> sql_error + 'n option" where
  "cast_numeric numeric_in t =
     (case t of
        None \<Rightarrow> Inr None
      | Some s \<Rightarrow> (case numeric_in s of None \<Rightarrow> Inl NumericCastFailed | Some n \<Rightarrow> Inr (Some n)))"

definition risk_score_column :: "(string \<Rightarrow> 'n option) \<Rightarrow> ('n \<Rightarrow> string) \<Rightarrow> mode \<Rightarrow> 'n cps_catalog_gold list
    \<Rightarrow> user_input_cps_catalog list \<Rightarrow> 'n cps_catalog_gold \<Rightarrow> sql_error + 'n option" where
  "risk_score_column numeric_in numeric_out m gold log g =
     cast_numeric numeric_in
       (coalesce [nullif (map_option u_new_value (join_device m log g ''risk_score'')) '''',
                  nullif (map_option u_new_value (join_cps_id ApplyForAll m gold log g ''risk_score'')) '''',
                  map_option numeric_out (g_risk_score g)])"

text \<open>
  The rows of the views. The select lists of the two migrations differ in one text
  column (\<open>sub_category\<close>, renamed \<open>device_type\<close>) and in \<open>risk_score\<close>, which only
  the first migration selects.
\<close>

datatype 'n column_value = TextValue "string option" | NumericValue "'n option"

record 'n effective_row =
  v_device_uuid :: string
  v_cps_id :: "string option"
  v_columns :: "(string \<times> 'n column_value) list"
  v_created_at :: int
  v_updated_at :: int

definition leading_columns :: "string list" where
  "leading_columns =
     [''vendor'', ''model'', ''hw_versions'', ''sw_versions'', ''os_names'', ''os_versions'',
      ''os_revisions'', ''manufacturer_product_code'', ''cps_vector'', ''is_eol'', ''potential_cves'',
      ''needs_vendor'', ''certified_patches'', ''pre_installed_applications'', ''links'', ''image_url'',
      ''category'']"

fun text_columns :: "migration \<Rightarrow> string list" where
  "text_columns ApplyForAll = leading_columns @ [''sub_category'', ''network_type'', ''patching_responsibility'']"
| "text_columns DeviceType = leading_columns @ [''device_type'', ''network_type'', ''patching_responsibility'']"

fun view_row :: "(string \<Rightarrow> 'n option) \<Rightarrow> ('n \<Rightarrow> string) \<Rightarrow> migration \<Rightarrow> mode \<Rightarrow> 'n cps_catalog_gold list
    \<Rightarrow> user_input_cps_catalog list \<Rightarrow> 'n cps_catalog_gold \<Rightarrow> sql_error + 'n effective_row" where
  "view_row numeric_in numeric_out ApplyForAll m gold log g =
     (case risk_score_column numeric_in numeric_out m gold log g of
        Inl e \<Rightarrow> Inl e
      | Inr r \<Rightarrow> Inr \<lparr>v_device_uuid = g_device_uuid g, v_cps_id = g_cps_id g,
                     v_columns =
                       map (\<lambda>f. (f, TextValue (text_column ApplyForAll m gold log g f)))
                         (leading_columns @ [''sub_category'', ''network_type''])
                       @ [(''risk_score'', NumericValue r),
                          (''patching_responsibility'',
                             TextValue (text_column ApplyForAll m gold log g ''patching_responsibility''))],
                     v_created_at = g_created_at g, v_updated_at = g_updated_at g\<rparr>)"
| "view_row numeric_in numeric_out DeviceType m gold log g =
     Inr \<lparr>v_device_uuid = g_device_uuid g, v_cps_id = g_cps_id g,
          v_columns =
            map (\<lambda>f. (f, TextValue (text_column DeviceType m gold log g f)))
              (leading_columns @ [''device_type'', ''network_type'', ''patching_responsibility'']),
          v_created_at = g_created_at g, v_updated_at = g_updated_at g\<rparr>"

section \<open>Scope buckets\<close>

text \<open>
  The candidates of one join: the rows of the partition of \<open>latest_device\<close> for a
  device and field, and of the partition of \<open>latest_cps_id\<close> for a cps_id and
  field. A row is first in its bucket when no row of the bucket is ordered before
  it.
\<close>

definition device_bucket :: "mode \<Rightarrow> user_input_cps_catalog list \<Rightarrow> string \<Rightarrow> string \<Rightarrow> user_input_cps_catalog list" where
  "device_bucket m log d f =
     filter (\<lambda>u. where_device m u \<and> u_device_uuid u = d \<and> u_field_name u = f) log"

definition cps_id_bucket :: "migration \<Rightarrow> mode \<Rightarrow> 'n cps_catalog_gold list \<Rightarrow> user_input_cps_catalog list
    \<Rightarrow> string \<Rightarrow> string \<Rightarrow> user_input_cps_catalog list" where
  "cps_id_bucket mig m gold log c f =
     map snd (filter (\<lambda>(c', u). c' = Some c \<and> u_field_name u = f) (cps_id_rows mig m gold log))"

definition first_in :: "mode \<Rightarrow> user_input_cps_catalog list \<Rightarrow> user_input_cps_catalog \<Rightarrow> bool" where
  "first_in m bucket w = (w \<in> set bucket \<and> (\<forall>s\<in>set bucket. \<not> order_by m s w))"

text \<open>The rows of one partition of a numbered table.\<close>

definition part :: "('r \<Rightarrow> 'k) \<Rightarrow> 'r list \<Rightarrow> 'k \<Rightarrow> 'r set" where
  "part pb rows k = {r \<in> set rows. pb r = k}"

section \<open>The casts on plain decimal notation\<close>

text \<open>
  The theorems hold for every pair of casts. For concrete inputs the casts are
  needed as functions: a \<open>numeric(4,1)\<close> is held as its number of tenths, and
  \<open>plain_numeric_in\<close> reads an optional sign, digits and an optional fraction,
  rounds half away from zero to one decimal and rejects a magnitude of 1000 or
  more. It rejects every other text, also the ones PostgreSQL would read
  (surrounding blanks, exponents, \<open>NaN\<close>); the examples use none of those.
  \<open>plain_numeric_out\<close> prints the tenths with one decimal; a \<open>numeric(4,1)\<close> has
  at most three digits before the point.
\<close>

definition digit :: "char \<Rightarrow> nat option" where
  "digit c = (let n = (of_char c :: nat) in if 48 \<le> n \<and> n \<le> 57 then Some (n - 48) else None)"

fun digits_value :: "string \<Rightarrow> nat \<Rightarrow> nat option" where
  "digits_value [] acc = Some acc"
| "digits_value (c # cs) acc = (case digit c of None \<Rightarrow> None | Some d \<Rightarrow> digits_value cs (10 * acc + d))"

fun fraction_tenths :: "string \<Rightarrow> nat option" where
  "fraction_tenths [] = Some 0"
| "fraction_tenths [c] = digit c"
| "fraction_tenths (c # c' # cs) =
     (case (digit c, digit c', digits_value cs 0) of
        (Some d, Some d', Some _) \<Rightarrow> Some (d + (if 5 \<le> d' then 1 else 0))
      | _ \<Rightarrow> None)"

definition unsigned_tenths :: "string \<Rightarrow> nat option" where
  "unsigned_tenths s =
     (let whole = takeWhile (\<lambda>c. c \<noteq> CHR ''.'') s;
          rest = dropWhile (\<lambda>c. c \<noteq> CHR ''.'') s;
          frac = (case rest of [] \<Rightarrow> [] | _ # cs \<Rightarrow> cs)
      in if whole = [] \<and> frac = [] then None
         else (case (digits_value whole 0, fraction_tenths frac) of
                 (Some w, Some t) \<Rightarrow> if 10 * w + t < 10000 then Some (10 * w + t) else None
               | _ \<Rightarrow> None))"

definition plain_numeric_in :: "string \<Rightarrow> int option" where
  "plain_numeric_in s =
     (case s of
        [] \<Rightarrow> None
      | c # cs \<Rightarrow>
          if c = CHR ''-'' then map_option (\<lambda>n. - int n) (unsigned_tenths cs)
          else if c = CHR ''+'' then map_option int (unsigned_tenths cs)
          else map_option int (unsigned_tenths s))"

definition digit_char :: "nat \<Rightarrow> char" where
  "digit_char d = char_of (48 + d)"

definition whole_digits :: "nat \<Rightarrow> string" where
  "whole_digits w =
     (if w < 10 then [digit_char w]
      else if w < 100 then [digit_char (w div 10), digit_char (w mod 10)]
      else [digit_char (w div 100), digit_char (w div 10 mod 10), digit_char (w mod 10)])"

definition plain_numeric_out :: "int \<Rightarrow> string" where
  "plain_numeric_out n =
     (if n < 0 then ''-'' else '''') @ whole_digits (nat \<bar>n\<bar> div 10) @ ''.'' @ [digit_char (nat \<bar>n\<bar> mod 10)]"

section \<open>The override log\<close>

text \<open>
  The service that writes and deletes rows of \<open>cps.user_input_cps_catalog\<close> (the
  handlers behind \<open>POST /device/override\<close> and \<open>DELETE /changes/{id}\<close>, called by
  \<open>catalogAPI.commitOverride\<close> and \<open>catalogAPI.deleteChange\<close>) is not among the
  sources. The client's part is: the fields it never lets the user edit.
\<close>

definition NON_EDITABLE_FIELDS :: "string list" where
  "NON_EDITABLE_FIELDS =
     [''vendor'', ''model'', ''cps_id'', ''cps_vector'', ''hw_versions'', ''sw_versions'', ''os_names'',
      ''os_versions'', ''os_revisions'']"

text \<open>\<open>FieldEditor\<close>: \<open>const isReadOnly = nonEditableFields.includes(fieldName)\<close>.\<close>

definition isReadOnly :: "string list \<Rightarrow> string \<Rightarrow> bool" where
  "isReadOnly nonEditableFields fieldName = (fieldName \<in> set nonEditableFields)"

datatype error = InvalidField | InvalidValue | NotFound | StorageError

record field_descriptor =
  fd_name :: string
  fd_protected :: bool

record registry =
  Describe :: "string \<Rightarrow> field_descriptor option"
  Coerce :: "string \<Rightarrow> string \<Rightarrow> string option"

definition next_id :: "user_input_cps_catalog list \<Rightarrow> int" where
  "next_id log = fold max (map u_id log) 0 + 1"

text \<open>
  Modelled from the spec: the handler of \<open>POST /device/override\<close> is not among the
  sources. \<open>Append\<close> of section 4.1: the entry is rejected with \<open>InvalidField\<close> when
  its field name is unknown to the registry or protected, with \<open>InvalidValue\<close>
  when its value fails the coercion rule of the field; otherwise it gets the next
  id and is stored. The log is passed in and returned. Of a field descriptor only
  the protected flag plays a part; the coercion rules are the registry's \<open>Coerce\<close>.
\<close>

definition Append :: "registry \<Rightarrow> user_input_cps_catalog \<Rightarrow> user_input_cps_catalog list
    \<Rightarrow> (error + user_input_cps_catalog) \<times> user_input_cps_catalog list" where
  "Append reg entry log =
     (case Describe reg (u_field_name entry) of
        None \<Rightarrow> (Inl InvalidField, log)
      | Some d \<Rightarrow>
          if fd_protected d then (Inl InvalidField, log)
          else (case Coerce reg (u_field_name entry) (u_new_value entry) of
                  None \<Rightarrow> (Inl InvalidValue, log)
                | Some _ \<Rightarrow> (let stored = entry\<lparr>u_id := next_id log\<rparr> in (Inr stored, log @ [stored]))))"

text \<open>
  Modelled from the spec: the handler of \<open>DELETE /changes/{id}\<close> is not among the
  sources. \<open>Delete\<close> of section 4.1: the entry with that id is removed; \<open>NotFound\<close>
  when there is none.
\<close>

definition Delete :: "int \<Rightarrow> user_input_cps_catalog list \<Rightarrow> (error + unit) \<times> user_input_cps_catalog list" where
  "Delete i log =
     (if i \<in> set (map u_id log) then (Inr (), filter (\<lambda>u. u_id u \<noteq> i) log) else (Inl NotFound, log))"

text \<open>
  \<open>handleRevert\<close> calls \<open>catalogAPI.deleteChange(changeToRevert.id)\<close>, the request
  \<open>DELETE /changes/{id}\<close>: \<open>Revert\<close> of section 4.3 is \<open>Delete\<close> and writes nothing
  else.
\<close>

definition Revert :: "int \<Rightarrow> user_input_cps_catalog list \<Rightarrow> (error + unit) \<times> user_input_cps_catalog list" where
  "Revert entry_id log = Delete entry_id log"

text \<open>
  A registry built from the client: the known fields are the columns of the view,
  the protected ones are \<open>NON_EDITABLE_FIELDS\<close>, and every value is accepted.
\<close>

definition client_registry :: registry where
  "client_registry =
     \<lparr>Describe = (\<lambda>f. if f \<in> set (text_columns DeviceType)
                       then Some \<lparr>fd_name = f, fd_protected = isReadOnly NON_EDITABLE_FIELDS f\<rparr> else None),
      Coerce = (\<lambda>f v. Some v)\<rparr>"

section \<open>The changes log page\<close>

text \<open>
  \<open>ChangesLog.jsx\<close> keeps the response of \<open>catalogAPI.getAllChanges(1000)\<close> and
  filters it in the browser. A change is the JSON object of the response:
  \<open>changed_at\<close> is the time value of \<open>new Date(change.changed_at)\<close> in
  milliseconds, a missing string is \<open>None\<close>, and \<open>apply_for_all\<close> arrives as a
  boolean, a string or null.
\<close>

datatype json_flag = JBool bool | JString string | JNull

record change =
  c_id :: int
  c_changed_at :: int
  c_editor_user_name :: "string option"
  c_field_name :: "string option"
  c_vendor :: "string option"
  c_apply_for_all :: json_flag

record date_range =
  dr_from :: "int option"
  dr_to :: "int option"

record filters =
  f_editor :: string
  f_field_name :: string
  f_vendor :: string
  f_apply_for_all :: "bool option"

text \<open>
  Two built-ins of the browser are parameters of the filters, since what they
  compute depends on Unicode and on the time zone of the browser:
  \<open>toLowerCase\<close> is \<open>String.prototype.toLowerCase\<close>, and \<open>setHours_23_59_59_999\<close>
  takes the time value of a date to its time value after
  \<open>setHours(23, 59, 59, 999)\<close>. \<open>includes\<close> looks for a contiguous occurrence.
\<close>

fun js_includes :: "'a list \<Rightarrow> 'a list \<Rightarrow> bool" where
  "js_includes [] needle = (needle = [])"
| "js_includes (c # cs) needle = (prefix needle (c # cs) \<or> js_includes cs needle)"

definition or_empty :: "string option \<Rightarrow> string" where
  "or_empty s = (case s of None \<Rightarrow> '''' | Some t \<Rightarrow> t)"

text \<open>The callbacks of the five \<open>filtered.filter(...)\<close> calls of \<open>applyFilters\<close>.\<close>

definition in_date_range :: "(int \<Rightarrow> int) \<Rightarrow> date_range \<Rightarrow> change \<Rightarrow> bool" where
  "in_date_range setHours_23_59_59_999 dateRange change =
     (let changeDate = c_changed_at change in
      if (case dr_from dateRange of None \<Rightarrow> False | Some from \<Rightarrow> changeDate < from) then False
      else (case dr_to dateRange of
              None \<Rightarrow> True
            | Some to \<Rightarrow> (let toDate = setHours_23_59_59_999 to in
                          if changeDate > toDate then False else True)))"

definition editor_matches :: "(string \<Rightarrow> string) \<Rightarrow> filters \<Rightarrow> change \<Rightarrow> bool" where
  "editor_matches toLowerCase filters change =
     js_includes (toLowerCase (or_empty (c_editor_user_name change))) (toLowerCase (f_editor filters))"

definition field_name_matches :: "(string \<Rightarrow> string) \<Rightarrow> filters \<Rightarrow> change \<Rightarrow> bool" where
  "field_name_matches toLowerCase filters change =
     js_includes (toLowerCase (or_empty (c_field_name change))) (toLowerCase (f_field_name filters))"

definition vendor_matches :: "(string \<Rightarrow> string) \<Rightarrow> filters \<Rightarrow> change \<Rightarrow> bool" where
  "vendor_matches toLowerCase filters change =
     js_includes (toLowerCase (or_empty (c_vendor change))) (toLowerCase (f_vendor filters))"

definition apply_for_all_matches :: "bool \<Rightarrow> change \<Rightarrow> bool" where
  "apply_for_all_matches wanted change =
     (let isApplyForAll = (c_apply_for_all change = JBool True \<or> c_apply_for_all change = JString ''true'')
      in if wanted then isApplyForAll else \<not> isApplyForAll)"

text \<open>
  \<open>applyFilters\<close>: each filter is applied only when it is set; the result is
  \<open>filtered.slice(0, 30)\<close>.
\<close>

definition applyFilters :: "(string \<Rightarrow> string) \<Rightarrow> (int \<Rightarrow> int) \<Rightarrow> date_range \<Rightarrow> filters
    \<Rightarrow> change list \<Rightarrow> change list" where
  "applyFilters toLowerCase setHours_23_59_59_999 dateRange filters data =
     (let filtered = data;
          filtered = (if dr_from dateRange \<noteq> None \<or> dr_to dateRange \<noteq> None
                      then filter (in_date_range setHours_23_59_59_999 dateRange) filtered else filtered);
          filtered = (if f_editor filters \<noteq> ''''
                      then filter (editor_matches toLowerCase filters) filtered else filtered);
          filtered = (if f_field_name filters \<noteq> ''''
                      then filter (field_name_matches toLowerCase filters) filtered else filtered);
          filtered = (if f_vendor filters \<noteq> ''''
                      then filter (vendor_matches toLowerCase filters) filtered else filtered);
          filtered = (case f_apply_for_all filters of
                        None \<Rightarrow> filtered
                      | Some wanted \<Rightarrow> filter (apply_for_all_matches wanted) filtered);
          limited = take 30 filtered
      in limited)"

text \<open>
  Modelled from the spec: the handler of \<open>GET /changes\<close> is not among the sources.
  \<open>ListChanges\<close> of section 4.3 orders the entries it retrieves by \<open>changed_at\<close>
  descending, ties broken by id descending; \<open>getAllChanges(limit)\<close> sends the limit
  with the request and receives the first \<open>limit\<close> of them. Descending order is
  ascending order of the negated key.
\<close>

definition ListAll :: "change list \<Rightarrow> change list" where
  "ListAll entries = sort_key (\<lambda>c. (- c_changed_at c, - c_id c)) entries"

definition getAllChanges :: "nat \<Rightarrow> change list \<Rightarrow> change list" where
  "getAllChanges limit entries = take limit (ListAll entries)"

text \<open>\<open>loadChanges\<close>: the response of \<open>getAllChanges(1000)\<close> goes through \<open>applyFilters\<close>.\<close>

definition ListChanges :: "(string \<Rightarrow> string) \<Rightarrow> (int \<Rightarrow> int) \<Rightarrow> date_range \<Rightarrow> filters
    \<Rightarrow> change list \<Rightarrow> change list" where
  "ListChanges toLowerCase setHours_23_59_59_999 dateRange filters entries =
     applyFilters toLowerCase setHours_23_59_59_999 dateRange filters (getAllChanges 1000 entries)"

text \<open>
  For concrete inputs the two built-ins are needed as functions: lower case on
  ASCII letters, which is what \<open>toLowerCase\<close> does on ASCII text, and the end of
  the day for a browser on UTC. The examples use ASCII names only and no date
  range.
\<close>

definition ascii_toLowerCase :: "string \<Rightarrow> string" where
  "ascii_toLowerCase s =
     map (\<lambda>c. let n = (of_char c :: nat) in if 65 \<le> n \<and> n \<le> 90 then char_of (n + 32) else c) s"

definition utc_setHours_23_59_59_999 :: "int \<Rightarrow> int" where
  "utc_setHours_23_59_59_999 t = t - t mod 86400000 + 86399999"

section \<open>Rows written before the column existed\<close>

text \<open>The log with every NULL in \<open>apply_for_all\<close> replaced by FALSE.\<close>

definition null_to_false :: "user_input_cps_catalog \<Rightarrow> user_input_cps_catalog" where
  "null_to_false u = (if u_apply_for_all u = None then u\<lparr>u_apply_for_all := Some False\<rparr> else u)"

section \<open>Example data\<close>

text \<open>
  The devices of the end-to-end scenarios: \<open>d1\<close> and \<open>d2\<close> are variants of group
  \<open>g1\<close>, with vendor Acme.
\<close>

definition override_row :: "int \<Rightarrow> string \<Rightarrow> string \<Rightarrow> string \<Rightarrow> bool \<Rightarrow> int \<Rightarrow> bool option
    \<Rightarrow> user_input_cps_catalog" where
  "override_row i d f v validated t afa =
     \<lparr>u_id = i, u_device_uuid = d, u_cps_id = Some ''g1'', u_field_name = f, u_new_value = v,
      u_is_validated = validated, u_changed_at = t, u_apply_for_all = afa,
      u_editor_user_id = ''current_user'', u_editor_user_name = ''Current User'', u_note = None\<rparr>"

definition base_row :: "string \<Rightarrow> int cps_catalog_gold" where
  "base_row d =
     \<lparr>g_device_uuid = d, g_cps_id = Some ''g1'',
      g_text = (\<lambda>f. if f = ''vendor'' then Some ''Acme'' else if f = ''category'' then Some ''IT'' else None),
      g_risk_score = Some 50, g_created_at = 0, g_updated_at = 0\<rparr>"

definition change_row :: "int \<Rightarrow> int \<Rightarrow> string \<Rightarrow> change" where
  "change_row i t editor =
     \<lparr>c_id = i, c_changed_at = t, c_editor_user_name = Some editor, c_field_name = Some ''category'',
      c_vendor = Some ''Acme'', c_apply_for_all = JBool False\<rparr>"

text \<open>
  A log of 1001 changes: a thousand by Bob, of times 1001 down to 2, and the
  oldest one, of time 1, by Ann.
\<close>

definition thousand_and_one_changes :: "change list" where
  "thousand_and_one_changes =
     map (\<lambda>i. change_row (1001 - int i) (1001 - int i) ''Bob'') [0..<1000] @ [change_row 1 1 ''Ann'']"

section \<open>Facts about the joins\<close>

lemma row_number_1_iff:
  "row_number pb ob rows r = 1 \<longleftrightarrow> (\<forall>s\<in>set rows. pb s = pb r \<longrightarrow> \<not> ob s r)"
  by (auto simp: row_number_def filter_empty_conv)

lemma left_join_map_find:
  "(case filter (\<lambda>(r, rn). on r \<and> rn = 1) (map (\<lambda>r. (r, h r)) xs) of [] \<Rightarrow> None | (r, _) # _ \<Rightarrow> Some r)
     = find (\<lambda>r. on r \<and> h r = 1) xs"
  by (induction xs) auto

lemma left_join_rn1_find:
  "left_join_rn1 (with_rn pb ob rows) on =
     find (\<lambda>r. on r \<and> (\<forall>s\<in>set rows. pb s = pb r \<longrightarrow> \<not> ob s r)) rows"
  unfolding left_join_rn1_def with_rn_def left_join_map_find row_number_1_iff ..

lemma find_Some_D: "find P xs = Some w \<Longrightarrow> w \<in> set xs \<and> P w"
  by (induction xs) (auto split: if_splits)

lemma exists_first:
  assumes irr: "\<forall>a. \<not> ob a a" and tr: "\<forall>a b c. ob a b \<longrightarrow> ob b c \<longrightarrow> ob a c"
  shows "xs \<noteq> [] \<Longrightarrow> \<exists>w\<in>set xs. \<forall>s\<in>set xs. \<not> ob s w"
proof (induction xs)
  case Nil
  then show ?case by simp
next
  case (Cons x xs)
  show ?case
  proof (cases "xs = []")
    case True
    then show ?thesis using irr by simp
  next
    case False
    with Cons.IH obtain w where w: "w \<in> set xs" "\<forall>s\<in>set xs. \<not> ob s w" by blast
    show ?thesis
    proof (cases "ob x w")
      case True
      have "\<forall>s\<in>set (x # xs). \<not> ob s x"
        using irr tr True w(2) by (metis set_ConsD)
      then show ?thesis by auto
    next
      case False
      then show ?thesis using w by auto
    qed
  qed
qed

lemma join_part_Some:
  assumes "\<And>r. on r \<longleftrightarrow> pb r = k"
    and "left_join_rn1 (with_rn pb ob rows) on = Some w"
  shows "w \<in> part pb rows k \<and> (\<forall>s\<in>part pb rows k. \<not> ob s w)"
proof -
  from assms(2) have "find (\<lambda>r. on r \<and> (\<forall>s\<in>set rows. pb s = pb r \<longrightarrow> \<not> ob s r)) rows = Some w"
    by (simp add: left_join_rn1_find)
  from find_Some_D[OF this] show ?thesis
    by (auto simp: part_def assms(1))
qed

lemma join_part_None:
  assumes on: "\<And>r. on r \<longleftrightarrow> pb r = k"
    and irr: "\<forall>a. \<not> ob a a" and tr: "\<forall>a b c. ob a b \<longrightarrow> ob b c \<longrightarrow> ob a c"
  shows "left_join_rn1 (with_rn pb ob rows) on = None \<longleftrightarrow> part pb rows k = {}"
proof
  assume "part pb rows k = {}"
  then show "left_join_rn1 (with_rn pb ob rows) on = None"
    by (auto simp: left_join_rn1_find find_None_iff part_def on)
next
  assume none: "left_join_rn1 (with_rn pb ob rows) on = None"
  show "part pb rows k = {}"
  proof (rule ccontr)
    assume "part pb rows k \<noteq> {}"
    then have "filter (\<lambda>r. pb r = k) rows \<noteq> []"
      by (auto simp: part_def filter_empty_conv)
    from exists_first[where ob = ob and xs = "filter (\<lambda>r. pb r = k) rows", OF irr tr this]
    obtain w where "w \<in> set rows" "pb w = k" "\<forall>s\<in>set rows. pb s = k \<longrightarrow> \<not> ob s w"
      by auto
    with none show False
      by (auto simp: left_join_rn1_find find_None_iff on)
  qed
qed

lemma join_part_first:
  assumes on: "\<And>r. on r \<longleftrightarrow> pb r = k"
    and tot: "\<And>a b. a \<in> part pb rows k \<Longrightarrow> b \<in> part pb rows k \<Longrightarrow> a = b \<or> ob a b \<or> ob b a"
    and w: "w \<in> part pb rows k" "\<forall>s\<in>part pb rows k. \<not> ob s w"
  shows "left_join_rn1 (with_rn pb ob rows) on = Some w"
proof (cases "left_join_rn1 (with_rn pb ob rows) on")
  case None
  with w show ?thesis
    by (auto simp: left_join_rn1_find find_None_iff part_def on)
next
  case (Some v)
  from join_part_Some[OF on Some] have v: "v \<in> part pb rows k" "\<forall>s\<in>part pb rows k. \<not> ob s v"
    by auto
  with w tot[of v w] have "v = w" by blast
  with Some show ?thesis by simp
qed


lemma order_by_irrefl: "\<forall>a. \<not> order_by m a a"
  by (cases m) (auto simp: newer_def)

lemma order_by_trans: "\<forall>a b c. order_by m a b \<longrightarrow> order_by m b c \<longrightarrow> order_by m a c"
  by (cases m) (auto simp: newer_def)

lemma order_by_total: "u_id a \<noteq> u_id b \<Longrightarrow> order_by m a b \<or> order_by m b a"
  by (cases m) (auto simp: newer_def)

lemma key_eq: "distinct (map u_id log) \<Longrightarrow> a \<in> set log \<Longrightarrow> b \<in> set log \<Longrightarrow> u_id a = u_id b \<Longrightarrow> a = b"
  by (auto simp: distinct_map dest: inj_onD)

lemma set_device_bucket:
  "set (device_bucket m log d f) =
     part (\<lambda>u. (u_device_uuid u, u_field_name u)) (filter (where_device m) log) (d, f)"
  by (auto simp: device_bucket_def part_def)

lemma join_device_Some:
  assumes "join_device m log g f = Some w"
  shows "first_in m (device_bucket m log (g_device_uuid g) f) w"
  using join_part_Some[where k = "(g_device_uuid g, f)" and pb = "\<lambda>u. (u_device_uuid u, u_field_name u)"
      and on = "\<lambda>l. u_device_uuid l = g_device_uuid g \<and> u_field_name l = f", OF _ assms[unfolded join_device_def latest_device_def]]
  by (simp add: first_in_def set_device_bucket)

lemma join_device_None:
  "join_device m log g f = None \<longleftrightarrow> device_bucket m log (g_device_uuid g) f = []"
  using join_part_None[where k = "(g_device_uuid g, f)" and pb = "\<lambda>u. (u_device_uuid u, u_field_name u)"
      and on = "\<lambda>l. u_device_uuid l = g_device_uuid g \<and> u_field_name l = f" and ob = "order_by m"
      and rows = "filter (where_device m) log", OF _ order_by_irrefl order_by_trans]
  by (simp add: join_device_def latest_device_def set_device_bucket[symmetric])

lemma join_device_first:
  assumes d: "distinct (map u_id log)" and w: "first_in m (device_bucket m log (g_device_uuid g) f) w"
  shows "join_device m log g f = Some w"
  unfolding join_device_def latest_device_def
proof (rule join_part_first[where k = "(g_device_uuid g, f)"])
  fix a b
  assume "a \<in> part (\<lambda>u. (u_device_uuid u, u_field_name u)) (filter (where_device m) log) (g_device_uuid g, f)"
    "b \<in> part (\<lambda>u. (u_device_uuid u, u_field_name u)) (filter (where_device m) log) (g_device_uuid g, f)"
  then have "a \<in> set log" "b \<in> set log" by (auto simp: part_def)
  then show "a = b \<or> order_by m a b \<or> order_by m b a"
    using key_eq[OF d] order_by_total by blast
qed (use w in \<open>auto simp: first_in_def set_device_bucket\<close>)


lemma cps_id_rows_in_log: "(c, u) \<in> set (cps_id_rows mig m gold log) \<Longrightarrow> u \<in> set log"
  by (cases mig) auto

lemma set_cps_id_bucket:
  "set (cps_id_bucket mig m gold log c f) =
     snd ` part (\<lambda>(c, u). (c, u_field_name u)) (cps_id_rows mig m gold log) (Some c, f)"
  by (auto simp: cps_id_bucket_def part_def image_iff)

lemma on_cps_id:
  "g_cps_id g = Some c \<Longrightarrow>
     (\<lambda>(c', l). sql_eq c' (g_cps_id g) \<and> u_field_name l = f) r \<longleftrightarrow>
     (\<lambda>(c', u). (c', u_field_name u)) r = (Some c, f)"
  by (auto simp: sql_eq_def split: prod.splits option.splits)

lemma sql_eq_null: "sql_eq a None = False"
  by (cases a) (simp_all add: sql_eq_def)

lemma join_cps_id_null: "g_cps_id g = None \<Longrightarrow> join_cps_id mig m gold log g f = None"
  by (simp add: join_cps_id_def left_join_rn1_def sql_eq_null case_prod_unfold)

lemma join_cps_id_Some:
  assumes "join_cps_id mig m gold log g f = Some w"
  shows "\<exists>c. g_cps_id g = Some c \<and> first_in m (cps_id_bucket mig m gold log c f) w"
proof (cases "g_cps_id g")
  case None
  with assms show ?thesis by (simp add: join_cps_id_null)
next
  case (Some c)
  from assms obtain c' where j: "left_join_rn1 (latest_cps_id mig m gold log)
      (\<lambda>(c, l). sql_eq c (g_cps_id g) \<and> u_field_name l = f) = Some (c', w)"
    by (auto simp: join_cps_id_def)
  from join_part_Some[where k = "(Some c, f)" and pb = "\<lambda>(c', u). (c', u_field_name u)"
      and on = "\<lambda>(c', l). sql_eq c' (g_cps_id g) \<and> u_field_name l = f",
      OF on_cps_id[OF Some] j[unfolded latest_cps_id_def]]
  have "first_in m (cps_id_bucket mig m gold log c f) w"
    unfolding first_in_def set_cps_id_bucket by force
  with Some show ?thesis by simp
qed

lemma cps_order_irrefl: "\<forall>a. \<not> (case a of (c, u) \<Rightarrow> \<lambda>(c', u'). order_by m u u') a"
  using order_by_irrefl by (auto split: prod.splits)

lemma cps_order_trans:
  "\<forall>a b c. (case a of (c, u) \<Rightarrow> \<lambda>(c', u'). order_by m u u') b \<longrightarrow>
     (case b of (c, u) \<Rightarrow> \<lambda>(c', u'). order_by m u u') c \<longrightarrow>
     (case a of (c, u) \<Rightarrow> \<lambda>(c', u'). order_by m u u') c"
  using order_by_trans[of m] by (auto split: prod.splits)

lemma join_cps_id_None:
  assumes "g_cps_id g = Some c"
  shows "join_cps_id mig m gold log g f = None \<longleftrightarrow> cps_id_bucket mig m gold log c f = []"
proof -
  have "join_cps_id mig m gold log g f = None \<longleftrightarrow>
        part (\<lambda>(c, u). (c, u_field_name u)) (cps_id_rows mig m gold log) (Some c, f) = {}"
    unfolding join_cps_id_def latest_cps_id_def
    using join_part_None[where k = "(Some c, f)" and pb = "\<lambda>(c', u). (c', u_field_name u)"
      and on = "\<lambda>(c', l). sql_eq c' (g_cps_id g) \<and> u_field_name l = f",
      OF on_cps_id[OF assms] cps_order_irrefl cps_order_trans]
    by simp
  also have "\<dots> \<longleftrightarrow> set (cps_id_bucket mig m gold log c f) = {}"
    by (simp add: set_cps_id_bucket)
  finally show ?thesis by simp
qed

lemma join_cps_id_first:
  assumes d: "distinct (map u_id log)" and c: "g_cps_id g = Some c"
    and w: "first_in m (cps_id_bucket mig m gold log c f) w"
  shows "join_cps_id mig m gold log g f = Some w"
proof -
  let ?P = "part (\<lambda>(c, u). (c, u_field_name u)) (cps_id_rows mig m gold log) (Some c, f)"
  have mem: "r \<in> ?P \<Longrightarrow> fst r = Some c \<and> snd r \<in> set log" for r
    by (cases r) (auto simp: part_def dest: cps_id_rows_in_log)
  have tot: "a = b \<or> (case a of (c, u) \<Rightarrow> \<lambda>(c', u'). order_by m u u') b
                   \<or> (case b of (c, u) \<Rightarrow> \<lambda>(c', u'). order_by m u u') a"
    if "a \<in> ?P" "b \<in> ?P" for a b
  proof (cases "snd a = snd b")
    case True
    with mem[OF that(1)] mem[OF that(2)] show ?thesis by (simp add: prod_eq_iff)
  next
    case False
    with mem[OF that(1)] mem[OF that(2)] key_eq[OF d] have "u_id (snd a) \<noteq> u_id (snd b)" by blast
    from order_by_total[OF this, of m] show ?thesis by (auto split: prod.splits)
  qed
  from w have "(Some c, w) \<in> ?P"
    by (auto simp: first_in_def set_cps_id_bucket part_def)
  moreover from w have "\<forall>s\<in>?P. \<not> (case s of (c, u) \<Rightarrow> \<lambda>(c', u'). order_by m u u') (Some c, w)"
    unfolding first_in_def set_cps_id_bucket by force
  ultimately have "left_join_rn1 (with_rn (\<lambda>(c, u). (c, u_field_name u)) (\<lambda>(c, u) (c', u'). order_by m u u')
       (cps_id_rows mig m gold log)) (\<lambda>(c, l). sql_eq c (g_cps_id g) \<and> u_field_name l = f) = Some (Some c, w)"
    using join_part_first[where k = "(Some c, f)" and pb = "\<lambda>(c', u). (c', u_field_name u)"
      and on = "\<lambda>(c', l). sql_eq c' (g_cps_id g) \<and> u_field_name l = f"
      and rows = "cps_id_rows mig m gold log" and w = "(Some c, w)"
      and ob = "\<lambda>(c, u) (c', u'). order_by m u u'", OF on_cps_id[OF c] tot] by blast
  then show ?thesis by (simp add: join_cps_id_def latest_cps_id_def)
qed

section \<open>Facts about the select list\<close>

lemma nullif_value:
  "nullif (map_option u_new_value l) '''' = map_option u_new_value (non_blank l)"
  by (cases l) (simp_all add: nullif_def non_blank_def)

lemma coalesce_single: "coalesce [a] = a"
  by (cases a) simp_all

lemma text_column_selected:
  "text_column mig m gold log g f =
     (case selected mig m gold log g f of
        DeviceOverride d \<Rightarrow> Some (u_new_value d)
      | GroupOverride c \<Rightarrow> Some (u_new_value c)
      | BaseRecord \<Rightarrow> g_text g f)"
  by (simp add: text_column_def selected_def nullif_value coalesce_single split: option.splits)

lemma join_device_iff:
  assumes "distinct (map u_id log)"
  shows "join_device m log g f = Some w \<longleftrightarrow> first_in m (device_bucket m log (g_device_uuid g) f) w"
proof
  assume "join_device m log g f = Some w"
  then show "first_in m (device_bucket m log (g_device_uuid g) f) w"
    by (rule join_device_Some)
next
  assume "first_in m (device_bucket m log (g_device_uuid g) f) w"
  then show "join_device m log g f = Some w"
    by (rule join_device_first[OF assms])
qed

lemma join_cps_id_iff:
  assumes "distinct (map u_id log)" and "g_cps_id g = Some c"
  shows "join_cps_id mig m gold log g f = Some w \<longleftrightarrow> first_in m (cps_id_bucket mig m gold log c f) w"
proof
  assume "join_cps_id mig m gold log g f = Some w"
  from join_cps_id_Some[OF this] assms(2) show "first_in m (cps_id_bucket mig m gold log c f) w"
    by simp
next
  assume "first_in m (cps_id_bucket mig m gold log c f) w"
  then show "join_cps_id mig m gold log g f = Some w"
    by (rule join_cps_id_first[OF assms])
qed

lemma order_by_asym: "order_by m a b \<Longrightarrow> \<not> order_by m b a"
  by (cases m) (auto simp: newer_def)

lemma first_in_pair:
  assumes "set bucket = {a, b}" and "order_by m a b"
  shows "first_in m bucket a"
proof -
  have "\<not> order_by m a a" using order_by_irrefl by blast
  moreover have "\<not> order_by m b a" using assms(2) by (rule order_by_asym)
  ultimately show ?thesis by (simp add: first_in_def assms(1))
qed

section \<open>Precedence of the scopes\<close>



section \<open>Overrides for a whole cps_id\<close>

lemma device_bucket_fresh:
  assumes "d \<notin> u_device_uuid ` set log"
  shows "device_bucket m log d f = []"
  using assms by (auto simp: device_bucket_def filter_empty_conv)

lemma cps_id_rows_fresh:
  assumes "g_device_uuid g' \<notin> u_device_uuid ` set log"
  shows "cps_id_rows mig m (gold @ [g']) log = cps_id_rows mig m gold log"
proof (cases mig)
  case ApplyForAll
  then show ?thesis by simp
next
  case DeviceType
  have ne: "u_device_uuid u \<noteq> g_device_uuid g'" if "u \<in> set log" for u
    using assms that by (metis imageI)
  have eq: "map (\<lambda>u. map (\<lambda>g. (g_cps_id g, u)) (filter (\<lambda>g. u_device_uuid u = g_device_uuid g) (gold @ [g']))) log
      = map (\<lambda>u. map (\<lambda>g. (g_cps_id g, u)) (filter (\<lambda>g. u_device_uuid u = g_device_uuid g) gold)) log"
    by (intro map_cong refl) (simp add: ne)
  show ?thesis
    unfolding DeviceType cps_id_rows.simps eq ..
qed

lemma selected_group:
  assumes "non_blank (join_device m log g f) = None"
    and "join_cps_id mig m gold log g f = Some e" and "u_new_value e \<noteq> ''''"
  shows "selected mig m gold log g f = GroupOverride e"
  using assms by (simp add: selected_def non_blank_def)

lemma non_blank_join_device:
  assumes "\<forall>w. first_in m (device_bucket m log (g_device_uuid g) f) w \<longrightarrow> u_new_value w = ''''"
  shows "non_blank (join_device m log g f) = None"
proof (cases "join_device m log g f")
  case None
  then show ?thesis by (simp add: non_blank_def)
next
  case (Some w)
  from join_device_Some[OF Some] assms have "u_new_value w = ''''" by blast
  with Some show ?thesis by (simp add: non_blank_def)
qed

section \<open>NULL in apply_for_all\<close>

lemma row_number_map:
  "row_number pb ob (map h rows) (h r) = row_number (\<lambda>r. pb (h r)) (\<lambda>a b. ob (h a) (h b)) rows r"
  by (simp add: row_number_def filter_map comp_def)

lemma with_rn_map:
  "with_rn pb ob (map h rows) =
     map (\<lambda>(r, n). (h r, n)) (with_rn (\<lambda>r. pb (h r)) (\<lambda>a b. ob (h a) (h b)) rows)"
  by (simp add: with_rn_def row_number_map)

lemma left_join_rn1_map:
  "left_join_rn1 (map (\<lambda>(r, n). (h r, n)) cte) on = map_option h (left_join_rn1 cte (\<lambda>r. on (h r)))"
  by (induction cte) (auto simp: left_join_rn1_def split: list.splits)

lemma null_to_false_columns:
  "u_id (null_to_false u) = u_id u" "u_device_uuid (null_to_false u) = u_device_uuid u"
  "u_cps_id (null_to_false u) = u_cps_id u" "u_field_name (null_to_false u) = u_field_name u"
  "u_new_value (null_to_false u) = u_new_value u" "u_is_validated (null_to_false u) = u_is_validated u"
  "u_changed_at (null_to_false u) = u_changed_at u"
  by (simp_all add: null_to_false_def)

lemma null_to_false_where:
  "where_device m (null_to_false u) = where_device m u" "where_cps_id m (null_to_false u) = where_cps_id m u"
  by (cases m; simp add: null_to_false_def)+

lemma null_to_false_order: "order_by m (null_to_false a) (null_to_false b) = order_by m a b"
  by (cases m) (simp_all add: newer_def null_to_false_columns)

lemma latest_device_null_to_false:
  "latest_device m (map null_to_false log) = map (\<lambda>(r, n). (null_to_false r, n)) (latest_device m log)"
  by (simp add: latest_device_def filter_map comp_def null_to_false_where with_rn_map
      null_to_false_columns null_to_false_order)

lemma join_device_null_to_false:
  "join_device m (map null_to_false log) g f = map_option null_to_false (join_device m log g f)"
  by (simp add: join_device_def latest_device_null_to_false left_join_rn1_map null_to_false_columns)

lemma cps_id_rows_null_to_false:
  "cps_id_rows mig m gold (map null_to_false log) =
     map (\<lambda>(c, u). (c, null_to_false u)) (cps_id_rows mig m gold log)"
proof (cases mig)
  case ApplyForAll
  then show ?thesis
    by (simp add: filter_map comp_def null_to_false_where null_to_false_columns)
next
  case DeviceType
  have "cps_id_rows DeviceType m gold (map null_to_false log) =
          map (\<lambda>(c, u). (c, null_to_false u)) (cps_id_rows DeviceType m gold log)"
    by (induction log) (simp_all add: filter_map comp_def null_to_false_where null_to_false_columns)
  with DeviceType show ?thesis by simp
qed

lemma latest_cps_id_null_to_false:
  "latest_cps_id mig m gold (map null_to_false log) =
     map (\<lambda>(r, n). ((\<lambda>(c, u). (c, null_to_false u)) r, n)) (latest_cps_id mig m gold log)"
  by (simp add: latest_cps_id_def cps_id_rows_null_to_false with_rn_map case_prod_unfold
      null_to_false_columns null_to_false_order)

lemma join_cps_id_null_to_false:
  "join_cps_id mig m gold (map null_to_false log) g f = map_option null_to_false (join_cps_id mig m gold log g f)"
  unfolding join_cps_id_def latest_cps_id_null_to_false left_join_rn1_map
  by (simp add: case_prod_unfold null_to_false_columns option.map_comp comp_def)

lemma text_column_null_to_false:
  "text_column mig m gold (map null_to_false log) g f = text_column mig m gold log g f"
  by (simp add: text_column_def join_device_null_to_false join_cps_id_null_to_false option.map_comp
      comp_def null_to_false_columns)

lemma risk_score_column_null_to_false:
  "risk_score_column numeric_in numeric_out m gold (map null_to_false log) g =
     risk_score_column numeric_in numeric_out m gold log g"
  by (simp add: risk_score_column_def join_device_null_to_false join_cps_id_null_to_false option.map_comp
      comp_def null_to_false_columns)

text \<open>
  C10. Replacing every NULL in \<open>apply_for_all\<close> by FALSE changes no row of either
  view of either migration: every text column and \<open>risk_score\<close> resolve as before,
  for every base table, log and device.
\<close>

theorem null_apply_for_all_is_false:
  "view_row numeric_in numeric_out mig m gold (map null_to_false log) g =
     view_row numeric_in numeric_out mig m gold log g
   \<and> text_column mig m gold (map null_to_false log) g f = text_column mig m gold log g f
   \<and> risk_score_column numeric_in numeric_out m gold (map null_to_false log) g =
       risk_score_column numeric_in numeric_out m gold log g"
  by (cases mig)
    (simp_all add: text_column_null_to_false risk_score_column_null_to_false cong: sum.case_cong)

section \<open>Writing to and deleting from the log\<close>

lemma Delete_present:
  assumes "e \<in> set log" and "distinct (map u_id log)"
  shows "Delete (u_id e) log = (Inr (), removeAll e log)"
proof -
  have "filter (\<lambda>u. u_id u \<noteq> u_id e) log = filter (\<lambda>u. e \<noteq> u) log"
    using key_eq[OF assms(2) _ assms(1)] by (intro filter_cong refl) auto
  with assms(1) show ?thesis
    by (simp add: Delete_def removeAll_filter_not_eq)
qed

lemma Delete_absent:
  assumes "e \<in> set log" and "distinct (map u_id log)"
  shows "Delete (u_id e) (removeAll e log) = (Inl NotFound, removeAll e log)"
proof -
  have "u_id e \<notin> u_id ` set (removeAll e log)"
    using key_eq[OF assms(2) _ assms(1)] by auto
  then show ?thesis
    by (simp add: Delete_def)
qed

lemma removeAll_middle:
  assumes "distinct (map u_id (xs @ e # ys))"
  shows "removeAll e (xs @ e # ys) = xs @ ys"
proof -
  from assms have "distinct (xs @ e # ys)"
    by (metis distinct_map)
  then have "e \<notin> set xs" "e \<notin> set ys" by auto
  then show ?thesis by simp
qed

text \<open>
  C7. With \<open>id\<close> a key of the log and an entry of the log: the first \<open>Revert\<close> of
  its id succeeds and leaves the log without that entry and otherwise as it was
  (the entries before and after it, in order); the second returns \<open>NotFound\<close> and
  leaves the log as the first left it; and every row of both views, read after
  the first revert, is the row computed over the log without the entry.
\<close>

theorem revert_twice:
  assumes "e \<in> set log" and "distinct (map u_id log)"
  shows "Revert (u_id e) log = (Inr (), removeAll e log)
       \<and> Revert (u_id e) (snd (Revert (u_id e) log)) = (Inl NotFound, snd (Revert (u_id e) log))
       \<and> (log = xs @ e # ys \<longrightarrow> snd (Revert (u_id e) log) = xs @ ys)
       \<and> view_row numeric_in numeric_out mig m gold (snd (Revert (u_id e) log)) g =
           view_row numeric_in numeric_out mig m gold (removeAll e log) g
       \<and> text_column mig m gold (snd (Revert (u_id e) log)) g f = text_column mig m gold (removeAll e log) g f"
proof -
  have first: "Revert (u_id e) log = (Inr (), removeAll e log)"
    unfolding Revert_def by (rule Delete_present[OF assms])
  have second: "Revert (u_id e) (removeAll e log) = (Inl NotFound, removeAll e log)"
    unfolding Revert_def by (rule Delete_absent[OF assms])
  have middle: "removeAll e log = xs @ ys" if "log = xs @ e # ys"
    using assms(2) unfolding that by (rule removeAll_middle)
  have s: "snd (Revert (u_id e) log) = removeAll e log"
    by (simp add: first)
  show ?thesis
    unfolding s using first second middle by blast
qed

theorem revert_twice_witness:
  "override_row 2 ''d1'' ''category'' ''OT'' False 2 None
     \<in> set [override_row 1 ''d1'' ''category'' ''IoT'' False 1 None, override_row 2 ''d1'' ''category'' ''OT'' False 2 None]
   \<and> distinct (map u_id [override_row 1 ''d1'' ''category'' ''IoT'' False 1 None,
                          override_row 2 ''d1'' ''category'' ''OT'' False 2 None])
   \<and> Revert 2 [override_row 1 ''d1'' ''category'' ''IoT'' False 1 None, override_row 2 ''d1'' ''category'' ''OT'' False 2 None]
       = (Inr (), [override_row 1 ''d1'' ''category'' ''IoT'' False 1 None])
   \<and> Revert 2 [override_row 1 ''d1'' ''category'' ''IoT'' False 1 None]
       = (Inl NotFound, [override_row 1 ''d1'' ''category'' ''IoT'' False 1 None])"
proof -
  let ?e1 = "override_row 1 ''d1'' ''category'' ''IoT'' False 1 None"
  let ?e2 = "override_row 2 ''d1'' ''category'' ''OT'' False 2 None"
  have m: "?e2 \<in> set [?e1, ?e2]" by simp
  have d: "distinct (map u_id [?e1, ?e2])" by (simp add: override_row_def)
  have i: "u_id ?e2 = 2" by (simp add: override_row_def)
  have r: "removeAll ?e2 [?e1, ?e2] = [?e1]" by (simp add: override_row_def)
  from revert_twice[OF m d] have "Revert (u_id ?e2) [?e1, ?e2] = (Inr (), removeAll ?e2 [?e1, ?e2])
      \<and> Revert (u_id ?e2) (snd (Revert (u_id ?e2) [?e1, ?e2])) = (Inl NotFound, snd (Revert (u_id ?e2) [?e1, ?e2]))"
    by blast
  then have a: "Revert 2 [?e1, ?e2] = (Inr (), [?e1])"
    and b: "Revert 2 (snd (Revert 2 [?e1, ?e2])) = (Inl NotFound, snd (Revert 2 [?e1, ?e2]))"
    unfolding i r by blast+
  from b have "Revert 2 [?e1] = (Inl NotFound, [?e1])"
    unfolding a by simp
  with a m d show ?thesis by blast
qed

text \<open>
  C8. \<open>Append\<close> returns \<open>InvalidField\<close> and leaves the log as it was for every entry
  whose field name the registry does not know or describes as protected; with the
  registry of the client that covers every field of \<open>NON_EDITABLE_FIELDS\<close>.
\<close>

theorem append_rejects_invalid_field:
  "(Describe reg (u_field_name entry) = None
      \<or> (\<exists>d. Describe reg (u_field_name entry) = Some d \<and> fd_protected d) \<longrightarrow>
    Append reg entry log = (Inl InvalidField, log))
   \<and> (isReadOnly NON_EDITABLE_FIELDS (u_field_name entry) \<longrightarrow>
    Append client_registry entry log = (Inl InvalidField, log))"
proof (intro conjI impI)
  assume "Describe reg (u_field_name entry) = None
      \<or> (\<exists>d. Describe reg (u_field_name entry) = Some d \<and> fd_protected d)"
  then show "Append reg entry log = (Inl InvalidField, log)"
    by (auto simp: Append_def)
next
  assume "isReadOnly NON_EDITABLE_FIELDS (u_field_name entry)"
  then show "Append client_registry entry log = (Inl InvalidField, log)"
    by (simp add: Append_def client_registry_def)
qed

theorem append_rejects_invalid_field_witness:
  "isReadOnly NON_EDITABLE_FIELDS (u_field_name (override_row 0 ''d1'' ''vendor'' ''AcmeCorp'' False 1 None))
   \<and> Append client_registry (override_row 0 ''d1'' ''vendor'' ''AcmeCorp'' False 1 None) [] = (Inl InvalidField, [])
   \<and> Describe client_registry (u_field_name (override_row 0 ''d1'' ''colour'' ''red'' False 1 None)) = None
   \<and> Append client_registry (override_row 0 ''d1'' ''colour'' ''red'' False 1 None) [] = (Inl InvalidField, [])
   \<and> fst (Append client_registry (override_row 0 ''d1'' ''category'' ''OT'' False 1 None) [])
       = Inr (override_row 1 ''d1'' ''category'' ''OT'' False 1 None)"
proof -
  have p: "isReadOnly NON_EDITABLE_FIELDS (u_field_name (override_row 0 ''d1'' ''vendor'' ''AcmeCorp'' False 1 None))"
    by (simp add: isReadOnly_def NON_EDITABLE_FIELDS_def override_row_def)
  have u: "Describe client_registry (u_field_name (override_row 0 ''d1'' ''colour'' ''red'' False 1 None)) = None"
    by (simp add: client_registry_def leading_columns_def override_row_def)
  have ok: "fst (Append client_registry (override_row 0 ''d1'' ''category'' ''OT'' False 1 None) [])
       = Inr (override_row 1 ''d1'' ''category'' ''OT'' False 1 None)"
    by (simp add: Append_def client_registry_def leading_columns_def override_row_def isReadOnly_def
        NON_EDITABLE_FIELDS_def next_id_def Let_def)
  from append_rejects_invalid_field[of client_registry "override_row 0 ''d1'' ''vendor'' ''AcmeCorp'' False 1 None" "[]"] p
  have a: "Append client_registry (override_row 0 ''d1'' ''vendor'' ''AcmeCorp'' False 1 None) [] = (Inl InvalidField, [])"
    by blast
  from append_rejects_invalid_field[of client_registry "override_row 0 ''d1'' ''colour'' ''red'' False 1 None" "[]"] u
  have b: "Append client_registry (override_row 0 ''d1'' ''colour'' ''red'' False 1 None) [] = (Inl InvalidField, [])"
    by blast
  from p a u b ok show ?thesis by blast
qed

section \<open>Overrides with an empty value\<close>

lemma set_device_bucket_removeAll:
  "set (device_bucket m (removeAll e log) d f) = set (device_bucket m log d f) - {e}"
  by (auto simp: device_bucket_def)

lemma mem_cps_id_rows:
  "(c, u) \<in> set (cps_id_rows mig m gold log) \<longleftrightarrow>
     u \<in> set log \<and> where_cps_id m u \<and>
     (case mig of ApplyForAll \<Rightarrow> c = u_cps_id u
      | DeviceType \<Rightarrow> (\<exists>g\<in>set gold. u_device_uuid u = g_device_uuid g \<and> c = g_cps_id g))"
  by (cases mig) auto

lemma mem_cps_id_bucket:
  "u \<in> set (cps_id_bucket mig m gold log c f) \<longleftrightarrow>
     (Some c, u) \<in> set (cps_id_rows mig m gold log) \<and> u_field_name u = f"
  by (auto simp: cps_id_bucket_def image_iff)

lemma set_cps_id_bucket_removeAll:
  "set (cps_id_bucket mig m gold (removeAll e log) c f) = set (cps_id_bucket mig m gold log c f) - {e}"
  by (auto simp: mem_cps_id_bucket mem_cps_id_rows)

lemma distinct_removeAll_ids:
  "distinct (map u_id log) \<Longrightarrow> distinct (map u_id (removeAll e log))"
  by (simp add: removeAll_filter_not_eq distinct_map_filter)

lemma first_in_remove:
  assumes "first_in m B w" and "set B' = set B - {e}" and "w \<noteq> e"
  shows "first_in m B' w"
  using assms by (simp add: first_in_def)

lemma join_device_removeAll:
  assumes d: "distinct (map u_id log)" and ne: "join_device m log g f \<noteq> Some e"
  shows "join_device m (removeAll e log) g f = join_device m log g f"
proof (cases "join_device m log g f")
  case None
  then have "set (device_bucket m (removeAll e log) (g_device_uuid g) f) = {}"
    by (simp add: join_device_None set_device_bucket_removeAll)
  then have "join_device m (removeAll e log) g f = None"
    by (simp add: join_device_None)
  with None show ?thesis
    by simp
next
  case (Some w)
  with ne have "w \<noteq> e" by simp
  from first_in_remove[OF join_device_Some[OF Some] set_device_bucket_removeAll this]
  have "join_device m (removeAll e log) g f = Some w"
    by (rule join_device_first[OF distinct_removeAll_ids[OF d]])
  with Some show ?thesis by simp
qed

lemma join_cps_id_removeAll:
  assumes d: "distinct (map u_id log)" and ne: "join_cps_id mig m gold log g f \<noteq> Some e"
  shows "join_cps_id mig m gold (removeAll e log) g f = join_cps_id mig m gold log g f"
proof (cases "g_cps_id g")
  case None
  then show ?thesis by (simp add: join_cps_id_null)
next
  case c: (Some c)
  show ?thesis
  proof (cases "join_cps_id mig m gold log g f")
    case None
    then have "set (cps_id_bucket mig m gold (removeAll e log) c f) = {}"
      by (simp add: join_cps_id_None[OF c] set_cps_id_bucket_removeAll)
    then have "join_cps_id mig m gold (removeAll e log) g f = None"
      by (simp add: join_cps_id_None[OF c])
    with None show ?thesis
      by simp
  next
    case (Some w)
    with ne have "w \<noteq> e" by simp
    from Some have "first_in m (cps_id_bucket mig m gold log c f) w"
      by (simp add: join_cps_id_iff[OF d c])
    from first_in_remove[OF this set_cps_id_bucket_removeAll \<open>w \<noteq> e\<close>]
    have "join_cps_id mig m gold (removeAll e log) g f = Some w"
      by (rule join_cps_id_first[OF distinct_removeAll_ids[OF d] c])
    with Some show ?thesis by simp
  qed
qed

text \<open>
  C2, as the views have it. With \<open>id\<close> a key of the log, an override whose value is
  the empty string has no effect when it is not first in a bucket joined for the
  device: the column is what it is over the log without the entry. When it is
  first in the device bucket, that bucket supplies nothing and the column is the
  non-empty value of the first cps_id-wide override, else the base value; when it
  is first in the cps_id bucket, the column is the non-empty value of the first
  device-specific override, else the base value. An older entry of the bucket of
  the empty override is not looked at.
\<close>

theorem blank_override_effect:
  assumes "distinct (map u_id log)" and "u_new_value e = ''''"
  shows "(\<not> first_in m (device_bucket m log (g_device_uuid g) f) e
            \<and> (\<forall>c. g_cps_id g = Some c \<longrightarrow> \<not> first_in m (cps_id_bucket mig m gold log c f) e) \<longrightarrow>
          text_column mig m gold log g f = text_column mig m gold (removeAll e log) g f)
       \<and> (first_in m (device_bucket m log (g_device_uuid g) f) e \<longrightarrow>
          text_column mig m gold log g f =
            coalesce [nullif (map_option u_new_value (join_cps_id mig m gold log g f)) '''', g_text g f])
       \<and> (g_cps_id g = Some c \<and> first_in m (cps_id_bucket mig m gold log c f) e \<longrightarrow>
          text_column mig m gold log g f =
            coalesce [nullif (map_option u_new_value (join_device m log g f)) '''', g_text g f])"
proof (intro conjI impI)
  assume h: "\<not> first_in m (device_bucket m log (g_device_uuid g) f) e
      \<and> (\<forall>c. g_cps_id g = Some c \<longrightarrow> \<not> first_in m (cps_id_bucket mig m gold log c f) e)"
  then have "join_device m log g f \<noteq> Some e"
    by (simp add: join_device_iff[OF assms(1)])
  moreover from h have "join_cps_id mig m gold log g f \<noteq> Some e"
    using join_cps_id_Some[of mig m gold log g f e] by blast
  ultimately show "text_column mig m gold log g f = text_column mig m gold (removeAll e log) g f"
    by (simp add: text_column_def join_device_removeAll[OF assms(1)] join_cps_id_removeAll[OF assms(1)])
next
  assume "first_in m (device_bucket m log (g_device_uuid g) f) e"
  then have "join_device m log g f = Some e"
    by (simp add: join_device_iff[OF assms(1)])
  then show "text_column mig m gold log g f =
      coalesce [nullif (map_option u_new_value (join_cps_id mig m gold log g f)) '''', g_text g f]"
    by (simp add: text_column_def nullif_def assms(2))
next
  assume "g_cps_id g = Some c \<and> first_in m (cps_id_bucket mig m gold log c f) e"
  then have "join_cps_id mig m gold log g f = Some e"
    by (simp add: join_cps_id_iff[OF assms(1)])
  then show "text_column mig m gold log g f =
      coalesce [nullif (map_option u_new_value (join_device m log g f)) '''', g_text g f]"
    by (cases "nullif (map_option u_new_value (join_device m log g f)) ''''")
      (simp_all add: text_column_def nullif_def assms(2))
qed

text \<open>
  The claim as stated fails: an empty override that is the most recent of its
  device and field hides the older, non-empty override of the same bucket. With
  both in the log the category is the base value; without the empty one it is the
  older override.
\<close>

theorem blank_override_counterexample:
  "u_new_value (override_row 2 ''d1'' ''category'' '''' False 2 None) = ''''
   \<and> text_column DeviceType Effective [base_row ''d1'']
        [override_row 1 ''d1'' ''category'' ''OT'' False 1 None, override_row 2 ''d1'' ''category'' '''' False 2 None]
        (base_row ''d1'') ''category'' = Some ''IT''
   \<and> text_column DeviceType Effective [base_row ''d1'']
        (removeAll (override_row 2 ''d1'' ''category'' '''' False 2 None)
           [override_row 1 ''d1'' ''category'' ''OT'' False 1 None, override_row 2 ''d1'' ''category'' '''' False 2 None])
        (base_row ''d1'') ''category'' = Some ''OT''
   \<and> text_column ApplyForAll Effective [base_row ''d1'']
        [override_row 1 ''d1'' ''category'' ''OT'' False 1 None, override_row 2 ''d1'' ''category'' '''' False 2 None]
        (base_row ''d1'') ''category'' = Some ''IT''
   \<and> text_column ApplyForAll Effective [base_row ''d1'']
        (removeAll (override_row 2 ''d1'' ''category'' '''' False 2 None)
           [override_row 1 ''d1'' ''category'' ''OT'' False 1 None, override_row 2 ''d1'' ''category'' '''' False 2 None])
        (base_row ''d1'') ''category'' = Some ''OT''"
  by (simp add: text_column_def join_device_def join_cps_id_def latest_device_def latest_cps_id_def with_rn_def
      row_number_def left_join_rn1_def nullif_def override_row_def base_row_def newer_def sql_eq_def)

theorem blank_override_effect_witness:
  "distinct (map u_id [override_row 1 ''d1'' ''category'' ''OT'' False 2 None, override_row 2 ''d1'' ''category'' '''' False 1 None])
   \<and> u_new_value (override_row 2 ''d1'' ''category'' '''' False 1 None) = ''''
   \<and> \<not> first_in Effective
        (device_bucket Effective
           [override_row 1 ''d1'' ''category'' ''OT'' False 2 None, override_row 2 ''d1'' ''category'' '''' False 1 None]
           ''d1'' ''category'')
        (override_row 2 ''d1'' ''category'' '''' False 1 None)
   \<and> text_column DeviceType Effective [base_row ''d1'']
        [override_row 1 ''d1'' ''category'' ''OT'' False 2 None, override_row 2 ''d1'' ''category'' '''' False 1 None]
        (base_row ''d1'') ''category''
      = text_column DeviceType Effective [base_row ''d1'']
        [override_row 1 ''d1'' ''category'' ''OT'' False 2 None] (base_row ''d1'') ''category''"
proof -
  let ?e1 = "override_row 1 ''d1'' ''category'' ''OT'' False 2 None"
  let ?e2 = "override_row 2 ''d1'' ''category'' '''' False 1 None"
  let ?g = "base_row ''d1''"
  have d: "distinct (map u_id [?e1, ?e2])"
    by (simp add: override_row_def)
  have v: "u_new_value ?e2 = ''''"
    by (simp add: override_row_def)
  have nd: "\<not> first_in Effective (device_bucket Effective [?e1, ?e2] (g_device_uuid ?g) ''category'') ?e2"
    by (simp add: first_in_def device_bucket_def override_row_def base_row_def newer_def)
  have nc: "\<forall>c. g_cps_id ?g = Some c \<longrightarrow>
      \<not> first_in Effective (cps_id_bucket DeviceType Effective [?g] [?e1, ?e2] c ''category'') ?e2"
    by (simp add: first_in_def cps_id_bucket_def override_row_def base_row_def)
  have r: "removeAll ?e2 [?e1, ?e2] = [?e1]"
    by (simp add: override_row_def)
  from blank_override_effect[OF d v, of Effective ?g "''category''" DeviceType "[?g]"] nd nc
  have "text_column DeviceType Effective [?g] [?e1, ?e2] ?g ''category''
      = text_column DeviceType Effective [?g] (removeAll ?e2 [?e1, ?e2]) ?g ''category''"
    by blast
  with d v nd show ?thesis
    unfolding r by (simp add: base_row_def)
qed

section \<open>The cast of risk_score\<close>

lemma risk_score_column_selected:
  "risk_score_column numeric_in numeric_out m gold log g =
     cast_numeric numeric_in
       (case selected ApplyForAll m gold log g ''risk_score'' of
          DeviceOverride d \<Rightarrow> Some (u_new_value d)
        | GroupOverride c \<Rightarrow> Some (u_new_value c)
        | BaseRecord \<Rightarrow> map_option numeric_out (g_risk_score g))"
  by (simp add: risk_score_column_def selected_def nullif_value coalesce_single split: option.splits)

text \<open>
  C3, as the views have it. For \<open>risk_score\<close> the text is chosen first, among the
  candidates whose value is not the empty string, by precedence (first
  device-specific override, first cps_id-wide override, the printed base value),
  and the chosen text is then cast to \<open>numeric(4,1)\<close>. When the chosen override's
  text does not parse, the cast raises and the row of the view is not produced,
  whatever the candidates of lower precedence are; when it parses, the number is
  the value of the column.
\<close>

theorem risk_score_cast_after_choice:
  "(selected ApplyForAll m gold log g ''risk_score'' = DeviceOverride e
      \<or> selected ApplyForAll m gold log g ''risk_score'' = GroupOverride e \<longrightarrow>
    (numeric_in (u_new_value e) = None \<longrightarrow>
       risk_score_column numeric_in numeric_out m gold log g = Inl NumericCastFailed
       \<and> view_row numeric_in numeric_out ApplyForAll m gold log g = Inl NumericCastFailed)
    \<and> (numeric_in (u_new_value e) = Some n \<longrightarrow>
       risk_score_column numeric_in numeric_out m gold log g = Inr (Some n)))
   \<and> (selected ApplyForAll m gold log g ''risk_score'' = BaseRecord \<longrightarrow>
       risk_score_column numeric_in numeric_out m gold log g =
         cast_numeric numeric_in (map_option numeric_out (g_risk_score g)))"
proof (intro conjI impI)
  assume s: "selected ApplyForAll m gold log g ''risk_score'' = DeviceOverride e
      \<or> selected ApplyForAll m gold log g ''risk_score'' = GroupOverride e"
  then have c: "risk_score_column numeric_in numeric_out m gold log g = cast_numeric numeric_in (Some (u_new_value e))"
    by (auto simp: risk_score_column_selected)
  {
    assume "numeric_in (u_new_value e) = None"
    with c show r: "risk_score_column numeric_in numeric_out m gold log g = Inl NumericCastFailed"
      by (simp add: cast_numeric_def)
    then show "view_row numeric_in numeric_out ApplyForAll m gold log g = Inl NumericCastFailed"
      by simp
  next
    assume "numeric_in (u_new_value e) = Some n"
    with c show "risk_score_column numeric_in numeric_out m gold log g = Inr (Some n)"
      by (simp add: cast_numeric_def)
  }
next
  assume "selected ApplyForAll m gold log g ''risk_score'' = BaseRecord"
  then show "risk_score_column numeric_in numeric_out m gold log g =
      cast_numeric numeric_in (map_option numeric_out (g_risk_score g))"
    by (simp add: risk_score_column_selected)
qed

text \<open>
  The claim as stated fails: the device-specific override of \<open>d1\<close> is the text
  \<open>abc\<close>, the cps_id-wide override is \<open>7.5\<close> and the base value is 5.0, both good
  numbers; the row of \<open>d1\<close> is not produced.
\<close>

theorem risk_score_cast_counterexample:
  "plain_numeric_in ''abc'' = None \<and> plain_numeric_in ''7.5'' = Some 75
   \<and> g_risk_score (base_row ''d1'') = Some 50 \<and> plain_numeric_in (plain_numeric_out 50) = Some 50
   \<and> selected ApplyForAll Effective [base_row ''d1'', base_row ''d2'']
        [override_row 1 ''d1'' ''risk_score'' ''abc'' False 2 None,
         override_row 2 ''d2'' ''risk_score'' ''7.5'' True 1 (Some True)] (base_row ''d1'') ''risk_score''
       = DeviceOverride (override_row 1 ''d1'' ''risk_score'' ''abc'' False 2 None)
   \<and> risk_score_column plain_numeric_in plain_numeric_out Effective [base_row ''d1'', base_row ''d2'']
        [override_row 1 ''d1'' ''risk_score'' ''abc'' False 2 None,
         override_row 2 ''d2'' ''risk_score'' ''7.5'' True 1 (Some True)] (base_row ''d1'')
       = Inl NumericCastFailed
   \<and> view_row plain_numeric_in plain_numeric_out ApplyForAll Effective [base_row ''d1'', base_row ''d2'']
        [override_row 1 ''d1'' ''risk_score'' ''abc'' False 2 None,
         override_row 2 ''d2'' ''risk_score'' ''7.5'' True 1 (Some True)] (base_row ''d1'')
       = Inl NumericCastFailed"
proof -
  let ?log = "[override_row 1 ''d1'' ''risk_score'' ''abc'' False 2 None,
               override_row 2 ''d2'' ''risk_score'' ''7.5'' True 1 (Some True)]"
  let ?gold = "[base_row ''d1'', base_row ''d2'']"
  have a: "plain_numeric_in ''abc'' = None"
    by (simp add: plain_numeric_in_def unsigned_tenths_def digit_def)
  have b: "plain_numeric_in ''7.5'' = Some 75"
    by (simp add: plain_numeric_in_def unsigned_tenths_def digit_def)
  have o: "plain_numeric_in (plain_numeric_out 50) = Some 50"
    by code_simp
  have j: "join_device Effective ?log (base_row ''d1'') ''risk_score''
      = Some (override_row 1 ''d1'' ''risk_score'' ''abc'' False 2 None)"
    by (simp add: join_device_def latest_device_def with_rn_def row_number_def left_join_rn1_def newer_def
        override_row_def base_row_def)
  then have s: "selected ApplyForAll Effective ?gold ?log (base_row ''d1'') ''risk_score''
      = DeviceOverride (override_row 1 ''d1'' ''risk_score'' ''abc'' False 2 None)"
    by (simp add: selected_def non_blank_def override_row_def)
  have v: "u_new_value (override_row 1 ''d1'' ''risk_score'' ''abc'' False 2 None) = ''abc''"
    by (simp add: override_row_def)
  have r: "risk_score_column plain_numeric_in plain_numeric_out Effective ?gold ?log (base_row ''d1'')
      = Inl NumericCastFailed"
    by (simp add: risk_score_column_selected s v a cast_numeric_def)
  then have "view_row plain_numeric_in plain_numeric_out ApplyForAll Effective ?gold ?log (base_row ''d1'')
      = Inl NumericCastFailed"
    by simp
  with a b o s r show ?thesis
    by (simp add: base_row_def)
qed

theorem risk_score_cast_after_choice_witness:
  "selected ApplyForAll Effective [base_row ''d1'']
        [override_row 1 ''d1'' ''risk_score'' ''7.5'' False 2 None] (base_row ''d1'') ''risk_score''
       = DeviceOverride (override_row 1 ''d1'' ''risk_score'' ''7.5'' False 2 None)
   \<and> plain_numeric_in (u_new_value (override_row 1 ''d1'' ''risk_score'' ''7.5'' False 2 None)) = Some 75
   \<and> risk_score_column plain_numeric_in plain_numeric_out Effective [base_row ''d1'']
        [override_row 1 ''d1'' ''risk_score'' ''7.5'' False 2 None] (base_row ''d1'') = Inr (Some 75)
   \<and> selected ApplyForAll Effective [base_row ''d1'']
        [override_row 1 ''d1'' ''risk_score'' ''abc'' False 2 None] (base_row ''d1'') ''risk_score''
       = DeviceOverride (override_row 1 ''d1'' ''risk_score'' ''abc'' False 2 None)
   \<and> plain_numeric_in (u_new_value (override_row 1 ''d1'' ''risk_score'' ''abc'' False 2 None)) = None
   \<and> view_row plain_numeric_in plain_numeric_out ApplyForAll Effective [base_row ''d1'']
        [override_row 1 ''d1'' ''risk_score'' ''abc'' False 2 None] (base_row ''d1'') = Inl NumericCastFailed"
proof -
  let ?good = "override_row 1 ''d1'' ''risk_score'' ''7.5'' False 2 None"
  let ?bad = "override_row 1 ''d1'' ''risk_score'' ''abc'' False 2 None"
  let ?g = "base_row ''d1''"
  have sg: "selected ApplyForAll Effective [?g] [?good] ?g ''risk_score'' = DeviceOverride ?good"
    by (simp add: selected_def non_blank_def join_device_def latest_device_def with_rn_def row_number_def
        left_join_rn1_def override_row_def base_row_def newer_def)
  have sb: "selected ApplyForAll Effective [?g] [?bad] ?g ''risk_score'' = DeviceOverride ?bad"
    by (simp add: selected_def non_blank_def join_device_def latest_device_def with_rn_def row_number_def
        left_join_rn1_def override_row_def base_row_def newer_def)
  have pg: "plain_numeric_in (u_new_value ?good) = Some 75"
    by (simp add: plain_numeric_in_def unsigned_tenths_def digit_def override_row_def)
  have pb: "plain_numeric_in (u_new_value ?bad) = None"
    by (simp add: plain_numeric_in_def unsigned_tenths_def digit_def override_row_def)
  from risk_score_cast_after_choice[where m = Effective and gold = "[?g]" and log = "[?good]" and g = ?g
      and e = ?good and numeric_in = plain_numeric_in and numeric_out = plain_numeric_out and n = 75] sg pg
  have rg: "risk_score_column plain_numeric_in plain_numeric_out Effective [?g] [?good] ?g = Inr (Some 75)"
    by blast
  from risk_score_cast_after_choice[where m = Effective and gold = "[?g]" and log = "[?bad]" and g = ?g
      and e = ?bad and numeric_in = plain_numeric_in and numeric_out = plain_numeric_out] sb pb
  have rb: "view_row plain_numeric_in plain_numeric_out ApplyForAll Effective [?g] [?bad] ?g = Inl NumericCastFailed"
    by blast
  from sg pg rg sb pb rb show ?thesis by blast
qed

section \<open>The validated view against the effective view\<close>

lemma where_device_Validated: "where_device Validated u \<longleftrightarrow> where_device Effective u \<and> u_is_validated u"
  by auto

lemma where_cps_id_Validated: "where_cps_id Validated u \<longleftrightarrow> where_cps_id Effective u \<and> u_is_validated u"
  by auto

lemma device_bucket_Validated:
  "device_bucket Validated log d f = filter u_is_validated (device_bucket Effective log d f)"
  unfolding device_bucket_def filter_filter where_device_Validated
  by (intro filter_cong refl) blast

lemma set_cps_id_bucket_Validated:
  "set (cps_id_bucket mig Validated gold log c f) = set (filter u_is_validated (cps_id_bucket mig Effective gold log c f))"
  by (auto simp: mem_cps_id_bucket mem_cps_id_rows)

lemma first_validated:
  assumes "first_in Effective B w" and "u_is_validated w" and "set B' = set (filter u_is_validated B)"
  shows "first_in Validated B' w"
  using assms by (auto simp: first_in_def)

lemma first_unvalidated:
  assumes "first_in Effective B w" and "\<not> u_is_validated w" and "set B' = set (filter u_is_validated B)"
  shows "B' = []"
proof -
  have "\<not> u_is_validated s" if "s \<in> set B" for s
  proof
    assume "u_is_validated s"
    with assms(2) have "order_by Effective s w" by simp
    with assms(1) that show False unfolding first_in_def by blast
  qed
  with assms(3) have "set B' = {}" by auto
  then show ?thesis by simp
qed

lemma join_device_Validated:
  assumes d: "distinct (map u_id log)"
  shows "join_device Validated log g f =
           (case join_device Effective log g f of
              None \<Rightarrow> None
            | Some w \<Rightarrow> if u_is_validated w then Some w else None)"
proof (cases "join_device Effective log g f")
  case None
  then have "device_bucket Validated log (g_device_uuid g) f = []"
    by (simp add: join_device_None device_bucket_Validated)
  then have "join_device Validated log g f = None"
    by (simp add: join_device_None)
  with None show ?thesis by simp
next
  case (Some w)
  note f = join_device_Some[OF Some]
  show ?thesis
  proof (cases "u_is_validated w")
    case True
    from first_validated[OF f True] have "first_in Validated (device_bucket Validated log (g_device_uuid g) f) w"
      by (simp add: device_bucket_Validated)
    then have "join_device Validated log g f = Some w"
      by (rule join_device_first[OF d])
    with Some True show ?thesis by simp
  next
    case False
    from first_unvalidated[OF f False] have "device_bucket Validated log (g_device_uuid g) f = []"
      by (simp add: device_bucket_Validated)
    then have "join_device Validated log g f = None"
      by (simp add: join_device_None)
    with Some False show ?thesis by simp
  qed
qed

lemma join_cps_id_Validated:
  assumes d: "distinct (map u_id log)"
  shows "join_cps_id mig Validated gold log g f =
           (case join_cps_id mig Effective gold log g f of
              None \<Rightarrow> None
            | Some w \<Rightarrow> if u_is_validated w then Some w else None)"
proof (cases "g_cps_id g")
  case None
  then show ?thesis by (simp add: join_cps_id_null)
next
  case c: (Some c)
  show ?thesis
  proof (cases "join_cps_id mig Effective gold log g f")
    case None
    then have "set (cps_id_bucket mig Validated gold log c f) = {}"
      by (simp add: join_cps_id_None[OF c] set_cps_id_bucket_Validated)
    then have "join_cps_id mig Validated gold log g f = None"
      by (simp add: join_cps_id_None[OF c])
    with None show ?thesis by simp
  next
    case (Some w)
    then have f: "first_in Effective (cps_id_bucket mig Effective gold log c f) w"
      by (simp add: join_cps_id_iff[OF d c])
    show ?thesis
    proof (cases "u_is_validated w")
      case True
      from first_validated[OF f True set_cps_id_bucket_Validated]
      have "join_cps_id mig Validated gold log g f = Some w"
        by (rule join_cps_id_first[OF d c])
      with Some True show ?thesis by simp
    next
      case False
      from first_unvalidated[OF f False set_cps_id_bucket_Validated]
      have "join_cps_id mig Validated gold log g f = None"
        by (simp add: join_cps_id_None[OF c])
      with Some False show ?thesis by simp
    qed
  qed
qed

lemma non_blank_Validated:
  "non_blank (case l of None \<Rightarrow> None | Some w \<Rightarrow> if u_is_validated w then Some w else None) =
     (case non_blank l of None \<Rightarrow> None | Some w \<Rightarrow> if u_is_validated w then Some w else None)"
  by (cases l) (simp_all add: non_blank_def)

text \<open>
  C4, as the views have it. With \<open>id\<close> a key of the log: the validated view keeps
  in both buckets the validated rows only and orders them by \<open>changed_at\<close>
  descending, then \<open>id\<close> descending. It never selects an unvalidated override.
  Where the effective view selects a validated override, the validated view
  selects the same one. Where the effective view selects an unvalidated
  device-specific override, the validated view selects the first validated
  cps_id-wide override, if its value is not empty, else the base value; where the
  effective view selects an unvalidated cps_id-wide override or the base value,
  the validated view selects the base value. The validated override selected in
  place of an unvalidated one need not be older than it.
\<close>

theorem validated_view_refines_effective:
  assumes "distinct (map u_id log)"
  shows "device_bucket Validated log d f = filter u_is_validated (device_bucket Effective log d f)
       \<and> set (cps_id_bucket mig Validated gold log c f) =
           set (filter u_is_validated (cps_id_bucket mig Effective gold log c f))
       \<and> order_by Validated a b = newer a b
       \<and> (selected mig Validated gold log g f = DeviceOverride e
            \<or> selected mig Validated gold log g f = GroupOverride e \<longrightarrow> u_is_validated e)
       \<and> (u_is_validated e \<longrightarrow>
            (selected mig Effective gold log g f = DeviceOverride e \<longrightarrow>
               selected mig Validated gold log g f = DeviceOverride e)
          \<and> (selected mig Effective gold log g f = GroupOverride e \<longrightarrow>
               selected mig Validated gold log g f = GroupOverride e))
       \<and> (\<not> u_is_validated e \<longrightarrow>
            (selected mig Effective gold log g f = DeviceOverride e \<longrightarrow>
               selected mig Validated gold log g f =
                 (case non_blank (join_cps_id mig Validated gold log g f) of
                    Some e' \<Rightarrow> GroupOverride e' | None \<Rightarrow> BaseRecord))
          \<and> (selected mig Effective gold log g f = GroupOverride e \<longrightarrow>
               selected mig Validated gold log g f = BaseRecord))
       \<and> (selected mig Effective gold log g f = BaseRecord \<longrightarrow>
            selected mig Validated gold log g f = BaseRecord)"
proof -
  define ld where "ld = non_blank (join_device Effective log g f)"
  define lc where "lc = non_blank (join_cps_id mig Effective gold log g f)"
  have jd: "non_blank (join_device Validated log g f) =
      (case ld of None \<Rightarrow> None | Some w \<Rightarrow> if u_is_validated w then Some w else None)"
    unfolding ld_def join_device_Validated[OF assms] by (rule non_blank_Validated)
  have jc: "non_blank (join_cps_id mig Validated gold log g f) =
      (case lc of None \<Rightarrow> None | Some w \<Rightarrow> if u_is_validated w then Some w else None)"
    unfolding lc_def join_cps_id_Validated[OF assms] by (rule non_blank_Validated)
  have se: "selected mig Effective gold log g f =
      (case ld of Some d \<Rightarrow> DeviceOverride d
       | None \<Rightarrow> (case lc of Some c \<Rightarrow> GroupOverride c | None \<Rightarrow> BaseRecord))"
    unfolding selected_def ld_def lc_def ..
  have sv: "selected mig Validated gold log g f =
      (case (case ld of None \<Rightarrow> None | Some w \<Rightarrow> if u_is_validated w then Some w else None) of
         Some d \<Rightarrow> DeviceOverride d
       | None \<Rightarrow>
           (case (case lc of None \<Rightarrow> None | Some w \<Rightarrow> if u_is_validated w then Some w else None) of
              Some c \<Rightarrow> GroupOverride c
            | None \<Rightarrow> BaseRecord))"
    unfolding selected_def jd jc ..
  have v: "selected mig Validated gold log g f = DeviceOverride e
      \<or> selected mig Validated gold log g f = GroupOverride e \<longrightarrow> u_is_validated e"
    unfolding sv by (cases ld; cases lc) auto
  have same: "u_is_validated e \<longrightarrow>
      (selected mig Effective gold log g f = DeviceOverride e \<longrightarrow>
         selected mig Validated gold log g f = DeviceOverride e)
      \<and> (selected mig Effective gold log g f = GroupOverride e \<longrightarrow>
         selected mig Validated gold log g f = GroupOverride e)"
    unfolding sv se by (cases ld; cases lc) auto
  have lower: "\<not> u_is_validated e \<longrightarrow>
      (selected mig Effective gold log g f = DeviceOverride e \<longrightarrow>
         selected mig Validated gold log g f =
           (case non_blank (join_cps_id mig Validated gold log g f) of
              Some e' \<Rightarrow> GroupOverride e' | None \<Rightarrow> BaseRecord))
      \<and> (selected mig Effective gold log g f = GroupOverride e \<longrightarrow>
         selected mig Validated gold log g f = BaseRecord)"
    unfolding sv se jc by (cases ld; cases lc) auto
  have base: "selected mig Effective gold log g f = BaseRecord \<longrightarrow>
      selected mig Validated gold log g f = BaseRecord"
    unfolding sv se by (cases ld; cases lc) auto
  have o: "order_by Validated a b = newer a b"
    by simp
  from v same lower base o device_bucket_Validated set_cps_id_bucket_Validated show ?thesis
    by blast
qed

text \<open>
  The claim as stated fails where it says the validated override is an older one:
  the device-specific override of \<open>d1\<close> is unvalidated, of time 1; the cps_id-wide
  override is validated, of time 2. The effective view selects the first, the
  validated view the second, which is the more recent of the two.
\<close>

theorem validated_view_counterexample:
  "selected DeviceType Effective [base_row ''d1'']
      [override_row 1 ''d1'' ''category'' ''OT'' False 1 (Some False),
       override_row 2 ''d1'' ''category'' ''IoT'' True 2 (Some True)] (base_row ''d1'') ''category''
     = DeviceOverride (override_row 1 ''d1'' ''category'' ''OT'' False 1 (Some False))
   \<and> selected DeviceType Validated [base_row ''d1'']
      [override_row 1 ''d1'' ''category'' ''OT'' False 1 (Some False),
       override_row 2 ''d1'' ''category'' ''IoT'' True 2 (Some True)] (base_row ''d1'') ''category''
     = GroupOverride (override_row 2 ''d1'' ''category'' ''IoT'' True 2 (Some True))
   \<and> selected ApplyForAll Effective [base_row ''d1'']
      [override_row 1 ''d1'' ''category'' ''OT'' False 1 (Some False),
       override_row 2 ''d1'' ''category'' ''IoT'' True 2 (Some True)] (base_row ''d1'') ''category''
     = DeviceOverride (override_row 1 ''d1'' ''category'' ''OT'' False 1 (Some False))
   \<and> selected ApplyForAll Validated [base_row ''d1'']
      [override_row 1 ''d1'' ''category'' ''OT'' False 1 (Some False),
       override_row 2 ''d1'' ''category'' ''IoT'' True 2 (Some True)] (base_row ''d1'') ''category''
     = GroupOverride (override_row 2 ''d1'' ''category'' ''IoT'' True 2 (Some True))
   \<and> u_changed_at (override_row 1 ''d1'' ''category'' ''OT'' False 1 (Some False))
       < u_changed_at (override_row 2 ''d1'' ''category'' ''IoT'' True 2 (Some True))
   \<and> \<not> newer (override_row 1 ''d1'' ''category'' ''OT'' False 1 (Some False))
              (override_row 2 ''d1'' ''category'' ''IoT'' True 2 (Some True))"
  by (simp add: selected_def non_blank_def join_device_def join_cps_id_def latest_device_def latest_cps_id_def
      with_rn_def row_number_def left_join_rn1_def override_row_def base_row_def newer_def sql_eq_def)

theorem validated_view_refines_effective_witness:
  "distinct (map u_id [override_row 1 ''d1'' ''category'' ''OT'' False 1 (Some False),
                       override_row 2 ''d1'' ''category'' ''IoT'' True 2 (Some True)])
   \<and> \<not> u_is_validated (override_row 1 ''d1'' ''category'' ''OT'' False 1 (Some False))
   \<and> selected DeviceType Effective [base_row ''d1'']
        [override_row 1 ''d1'' ''category'' ''OT'' False 1 (Some False),
         override_row 2 ''d1'' ''category'' ''IoT'' True 2 (Some True)] (base_row ''d1'') ''category''
       = DeviceOverride (override_row 1 ''d1'' ''category'' ''OT'' False 1 (Some False))
   \<and> selected DeviceType Validated [base_row ''d1'']
        [override_row 1 ''d1'' ''category'' ''OT'' False 1 (Some False),
         override_row 2 ''d1'' ''category'' ''IoT'' True 2 (Some True)] (base_row ''d1'') ''category''
       = GroupOverride (override_row 2 ''d1'' ''category'' ''IoT'' True 2 (Some True))
   \<and> distinct (map u_id [override_row 3 ''d1'' ''category'' ''OT'' True 1 (Some False),
                          override_row 4 ''d1'' ''category'' ''Medical'' False 2 (Some False)])
   \<and> u_is_validated (override_row 3 ''d1'' ''category'' ''OT'' True 1 (Some False))
   \<and> selected DeviceType Effective [base_row ''d1'']
        [override_row 3 ''d1'' ''category'' ''OT'' True 1 (Some False),
         override_row 4 ''d1'' ''category'' ''Medical'' False 2 (Some False)] (base_row ''d1'') ''category''
       = DeviceOverride (override_row 3 ''d1'' ''category'' ''OT'' True 1 (Some False))
   \<and> selected DeviceType Validated [base_row ''d1'']
        [override_row 3 ''d1'' ''category'' ''OT'' True 1 (Some False),
         override_row 4 ''d1'' ''category'' ''Medical'' False 2 (Some False)] (base_row ''d1'') ''category''
       = DeviceOverride (override_row 3 ''d1'' ''category'' ''OT'' True 1 (Some False))"
proof -
  let ?e1 = "override_row 1 ''d1'' ''category'' ''OT'' False 1 (Some False)"
  let ?e2 = "override_row 2 ''d1'' ''category'' ''IoT'' True 2 (Some True)"
  let ?e3 = "override_row 3 ''d1'' ''category'' ''OT'' True 1 (Some False)"
  let ?e4 = "override_row 4 ''d1'' ''category'' ''Medical'' False 2 (Some False)"
  let ?g = "base_row ''d1''"
  have d1: "distinct (map u_id [?e1, ?e2])" and d2: "distinct (map u_id [?e3, ?e4])"
    by (simp_all add: override_row_def)
  have n1: "\<not> u_is_validated ?e1" and v3: "u_is_validated ?e3"
    by (simp_all add: override_row_def)
  have s1: "selected DeviceType Effective [?g] [?e1, ?e2] ?g ''category'' = DeviceOverride ?e1"
    by (simp add: selected_def non_blank_def join_device_def latest_device_def with_rn_def row_number_def
        left_join_rn1_def override_row_def base_row_def newer_def)
  have c1: "non_blank (join_cps_id DeviceType Validated [?g] [?e1, ?e2] ?g ''category'') = Some ?e2"
    by (simp add: non_blank_def join_cps_id_def latest_cps_id_def with_rn_def row_number_def
        left_join_rn1_def override_row_def base_row_def newer_def sql_eq_def)
  have s3: "selected DeviceType Effective [?g] [?e3, ?e4] ?g ''category'' = DeviceOverride ?e3"
    by (simp add: selected_def non_blank_def join_device_def latest_device_def with_rn_def row_number_def
        left_join_rn1_def override_row_def base_row_def newer_def)
  from validated_view_refines_effective[OF d1, where mig = DeviceType and gold = "[?g]" and g = ?g
      and f = "''category''" and e = ?e1] n1 s1
  have "selected DeviceType Validated [?g] [?e1, ?e2] ?g ''category'' =
      (case non_blank (join_cps_id DeviceType Validated [?g] [?e1, ?e2] ?g ''category'') of
         Some e' \<Rightarrow> GroupOverride e' | None \<Rightarrow> BaseRecord)"
    by blast
  then have r1: "selected DeviceType Validated [?g] [?e1, ?e2] ?g ''category'' = GroupOverride ?e2"
    unfolding c1 by simp
  from validated_view_refines_effective[OF d2, where mig = DeviceType and gold = "[?g]" and g = ?g
      and f = "''category''" and e = ?e3] v3 s3
  have r3: "selected DeviceType Validated [?g] [?e3, ?e4] ?g ''category'' = DeviceOverride ?e3"
    by blast
  from d1 n1 s1 r1 d2 v3 s3 r3 show ?thesis by blast
qed

section \<open>The joins in terms of the columns\<close>

lemma order_by_swap:
  assumes "distinct (map u_id log)" and "a \<in> set log" and "b \<in> set log" and "a \<noteq> b"
  shows "\<not> order_by m a b \<longleftrightarrow> order_by m b a"
proof -
  from assms have "u_id a \<noteq> u_id b"
    using key_eq by blast
  from order_by_total[OF this, of m] order_by_asym[of m a b] show ?thesis
    by blast
qed

lemma first_in_before_all:
  assumes d: "distinct (map u_id log)" and sub: "set B \<subseteq> set log"
  shows "first_in m B w \<longleftrightarrow> w \<in> set B \<and> (\<forall>s\<in>set B. s \<noteq> w \<longrightarrow> order_by m w s)"
proof (cases "w \<in> set B")
  case False
  then show ?thesis by (simp add: first_in_def)
next
  case True
  have "(\<forall>s\<in>set B. \<not> order_by m s w) \<longleftrightarrow> (\<forall>s\<in>set B. s \<noteq> w \<longrightarrow> order_by m w s)"
  proof (intro ball_cong refl)
    fix s assume s: "s \<in> set B"
    show "\<not> order_by m s w \<longleftrightarrow> (s \<noteq> w \<longrightarrow> order_by m w s)"
    proof (cases "s = w")
      case True
      then show ?thesis using order_by_irrefl by blast
    next
      case False
      with order_by_swap[OF d, of s w m] s True sub show ?thesis by blast
    qed
  qed
  with True show ?thesis by (simp add: first_in_def)
qed

lemma mem_device_bucket:
  "s \<in> set (device_bucket m log d f) \<longleftrightarrow>
     s \<in> set log \<and> (u_apply_for_all s = Some False \<or> u_apply_for_all s = None)
     \<and> (m = Validated \<longrightarrow> u_is_validated s) \<and> u_device_uuid s = d \<and> u_field_name s = f"
  by (cases m) (auto simp: device_bucket_def)

lemma mem_cps_id_bucket_columns:
  "s \<in> set (cps_id_bucket mig m gold log c f) \<longleftrightarrow>
     s \<in> set log \<and> u_apply_for_all s = Some True \<and> (m = Validated \<longrightarrow> u_is_validated s)
     \<and> (case mig of
           ApplyForAll \<Rightarrow> u_cps_id s = Some c
         | DeviceType \<Rightarrow> (\<exists>g'\<in>set gold. u_device_uuid s = g_device_uuid g' \<and> g_cps_id g' = Some c))
     \<and> u_field_name s = f"
  unfolding mem_cps_id_bucket mem_cps_id_rows by (cases m; cases mig) auto

lemma join_device_columns:
  assumes "distinct (map u_id log)"
  shows "join_device m log g f = Some w \<longleftrightarrow>
     w \<in> set (device_bucket m log (g_device_uuid g) f)
     \<and> (\<forall>s\<in>set (device_bucket m log (g_device_uuid g) f). s \<noteq> w \<longrightarrow> order_by m w s)"
proof -
  have "set (device_bucket m log (g_device_uuid g) f) \<subseteq> set log"
    by (auto simp: device_bucket_def)
  from first_in_before_all[OF assms this] show ?thesis
    by (simp add: join_device_iff[OF assms])
qed

lemma join_cps_id_columns:
  assumes "distinct (map u_id log)" and "g_cps_id g = Some c"
  shows "join_cps_id mig m gold log g f = Some w \<longleftrightarrow>
     w \<in> set (cps_id_bucket mig m gold log c f)
     \<and> (\<forall>s\<in>set (cps_id_bucket mig m gold log c f). s \<noteq> w \<longrightarrow> order_by m w s)"
proof -
  have "set (cps_id_bucket mig m gold log c f) \<subseteq> set log"
    by (auto simp: mem_cps_id_bucket_columns)
  from first_in_before_all[OF assms(1) this] show ?thesis
    by (simp add: join_cps_id_iff[OF assms])
qed

lemma device_bucket_empty:
  "device_bucket m log d f = [] \<longleftrightarrow> \<not> (\<exists>s. s \<in> set (device_bucket m log d f))"
  by (cases "device_bucket m log d f") auto

lemma cps_id_bucket_empty:
  "cps_id_bucket mig m gold log c f = [] \<longleftrightarrow> \<not> (\<exists>s. s \<in> set (cps_id_bucket mig m gold log c f))"
  by (cases "cps_id_bucket mig m gold log c f") auto

lemma order_by_columns:
  "order_by m w s \<longleftrightarrow>
     m = Effective \<and> u_is_validated w \<and> \<not> u_is_validated s
     \<or> (m = Validated \<or> u_is_validated w = u_is_validated s)
       \<and> (u_changed_at s < u_changed_at w \<or> u_changed_at s = u_changed_at w \<and> u_id s < u_id w)"
  by (cases m) (auto simp: newer_def)

lemma first_in_device_columns:
  assumes "distinct (map u_id log)"
  shows "first_in m (device_bucket m log d f) w \<longleftrightarrow>
     w \<in> set log \<and> (u_apply_for_all w = Some False \<or> u_apply_for_all w = None)
     \<and> (m = Validated \<longrightarrow> u_is_validated w) \<and> u_device_uuid w = d \<and> u_field_name w = f
     \<and> (\<forall>s\<in>set log.
           (u_apply_for_all s = Some False \<or> u_apply_for_all s = None)
           \<and> (m = Validated \<longrightarrow> u_is_validated s) \<and> u_device_uuid s = d \<and> u_field_name s = f
           \<and> s \<noteq> w \<longrightarrow>
           m = Effective \<and> u_is_validated w \<and> \<not> u_is_validated s
           \<or> (m = Validated \<or> u_is_validated w = u_is_validated s)
             \<and> (u_changed_at s < u_changed_at w \<or> u_changed_at s = u_changed_at w \<and> u_id s < u_id w))"
proof -
  have "set (device_bucket m log d f) \<subseteq> set log"
    by (auto simp: device_bucket_def)
  from first_in_before_all[OF assms this]
  have a: "first_in m (device_bucket m log d f) w \<longleftrightarrow>
      w \<in> set (device_bucket m log d f)
      \<and> (\<forall>s. s \<in> set (device_bucket m log d f) \<longrightarrow> s \<noteq> w \<longrightarrow> order_by m w s)"
    unfolding Ball_def .
  show ?thesis
    unfolding a Ball_def mem_device_bucket order_by_columns by (simp only: imp_conjL conj_assoc)
qed

lemma first_in_cps_id_columns:
  assumes "distinct (map u_id log)"
  shows "first_in m (cps_id_bucket mig m gold log c f) w \<longleftrightarrow>
     w \<in> set log \<and> u_apply_for_all w = Some True \<and> (m = Validated \<longrightarrow> u_is_validated w)
     \<and> (case mig of
           ApplyForAll \<Rightarrow> u_cps_id w = Some c
         | DeviceType \<Rightarrow> (\<exists>g'\<in>set gold. u_device_uuid w = g_device_uuid g' \<and> g_cps_id g' = Some c))
     \<and> u_field_name w = f
     \<and> (\<forall>s\<in>set log.
           u_apply_for_all s = Some True \<and> (m = Validated \<longrightarrow> u_is_validated s)
           \<and> (case mig of
                 ApplyForAll \<Rightarrow> u_cps_id s = Some c
               | DeviceType \<Rightarrow> (\<exists>g'\<in>set gold. u_device_uuid s = g_device_uuid g' \<and> g_cps_id g' = Some c))
           \<and> u_field_name s = f \<and> s \<noteq> w \<longrightarrow>
           m = Effective \<and> u_is_validated w \<and> \<not> u_is_validated s
           \<or> (m = Validated \<or> u_is_validated w = u_is_validated s)
             \<and> (u_changed_at s < u_changed_at w \<or> u_changed_at s = u_changed_at w \<and> u_id s < u_id w))"
proof -
  have "set (cps_id_bucket mig m gold log c f) \<subseteq> set log"
    by (auto simp: mem_cps_id_bucket_columns)
  from first_in_before_all[OF assms(1) this]
  have a: "first_in m (cps_id_bucket mig m gold log c f) w \<longleftrightarrow>
      w \<in> set (cps_id_bucket mig m gold log c f)
      \<and> (\<forall>s. s \<in> set (cps_id_bucket mig m gold log c f) \<longrightarrow> s \<noteq> w \<longrightarrow> order_by m w s)"
    unfolding Ball_def .
  show ?thesis
    unfolding a Ball_def mem_cps_id_bucket_columns order_by_columns by (simp only: imp_conjL conj_assoc)
qed

section \<open>The winner of a bucket\<close>

text \<open>
  C1. In the effective view, with \<open>id\<close> a key of the log. The row joined for a
  device and field is the device-specific override (\<open>apply_for_all\<close> FALSE or NULL)
  of that device and field that comes before every other one: it is validated
  and the other is not, or both have the same \<open>is_validated\<close> and it has the later
  \<open>changed_at\<close>, or the same \<open>changed_at\<close> and the larger \<open>id\<close>. No row is joined
  only when there is no such override. The same holds of the row joined for the
  cps_id of the device among the overrides with \<open>apply_for_all\<close> TRUE of that
  cps_id (taken from \<open>u.cps_id\<close> in the first migration, from the base row of the
  override's device in the second) and field. In particular, when the overrides
  of a device and field are id 5, validated, and id 9, not validated and more
  recent, with the value of id 5 not empty, the column resolves to the value of
  id 5.
\<close>

theorem effective_winner_is_first_of_bucket:
  assumes "distinct (map u_id log)"
  shows "(join_device Effective log g f = Some w \<longleftrightarrow>
            w \<in> set log \<and> (u_apply_for_all w = Some False \<or> u_apply_for_all w = None)
            \<and> u_device_uuid w = g_device_uuid g \<and> u_field_name w = f
            \<and> (\<forall>s\<in>set log.
                  (u_apply_for_all s = Some False \<or> u_apply_for_all s = None)
                  \<and> u_device_uuid s = g_device_uuid g \<and> u_field_name s = f \<and> s \<noteq> w \<longrightarrow>
                  u_is_validated w \<and> \<not> u_is_validated s
                  \<or> u_is_validated w = u_is_validated s
                    \<and> (u_changed_at s < u_changed_at w
                        \<or> u_changed_at s = u_changed_at w \<and> u_id s < u_id w)))
       \<and> (join_device Effective log g f = None \<longleftrightarrow>
            \<not> (\<exists>s\<in>set log. (u_apply_for_all s = Some False \<or> u_apply_for_all s = None)
                  \<and> u_device_uuid s = g_device_uuid g \<and> u_field_name s = f))
       \<and> (g_cps_id g = Some c \<longrightarrow>
            (join_cps_id mig Effective gold log g f = Some w \<longleftrightarrow>
               w \<in> set log \<and> u_apply_for_all w = Some True
               \<and> (case mig of
                     ApplyForAll \<Rightarrow> u_cps_id w = Some c
                   | DeviceType \<Rightarrow> (\<exists>g'\<in>set gold. u_device_uuid w = g_device_uuid g' \<and> g_cps_id g' = Some c))
               \<and> u_field_name w = f
               \<and> (\<forall>s\<in>set log.
                     u_apply_for_all s = Some True
                     \<and> (case mig of
                           ApplyForAll \<Rightarrow> u_cps_id s = Some c
                         | DeviceType \<Rightarrow> (\<exists>g'\<in>set gold. u_device_uuid s = g_device_uuid g' \<and> g_cps_id g' = Some c))
                     \<and> u_field_name s = f \<and> s \<noteq> w \<longrightarrow>
                     u_is_validated w \<and> \<not> u_is_validated s
                     \<or> u_is_validated w = u_is_validated s
                       \<and> (u_changed_at s < u_changed_at w
                           \<or> u_changed_at s = u_changed_at w \<and> u_id s < u_id w)))
          \<and> (join_cps_id mig Effective gold log g f = None \<longleftrightarrow>
               \<not> (\<exists>s\<in>set log. u_apply_for_all s = Some True
                     \<and> (case mig of
                           ApplyForAll \<Rightarrow> u_cps_id s = Some c
                         | DeviceType \<Rightarrow> (\<exists>g'\<in>set gold. u_device_uuid s = g_device_uuid g' \<and> g_cps_id g' = Some c))
                     \<and> u_field_name s = f)))
       \<and> ({s \<in> set log. (u_apply_for_all s = Some False \<or> u_apply_for_all s = None)
                \<and> u_device_uuid s = g_device_uuid g \<and> u_field_name s = f} = {e5, e9}
            \<and> u_id e5 = 5 \<and> u_id e9 = 9 \<and> u_is_validated e5 \<and> \<not> u_is_validated e9
            \<and> u_changed_at e5 < u_changed_at e9 \<and> u_new_value e5 \<noteq> '''' \<longrightarrow>
          text_column mig Effective gold log g f = Some (u_new_value e5))"
proof (intro conjI impI)
  show "join_device Effective log g f = Some w \<longleftrightarrow>
            w \<in> set log \<and> (u_apply_for_all w = Some False \<or> u_apply_for_all w = None)
            \<and> u_device_uuid w = g_device_uuid g \<and> u_field_name w = f
            \<and> (\<forall>s\<in>set log.
                  (u_apply_for_all s = Some False \<or> u_apply_for_all s = None)
                  \<and> u_device_uuid s = g_device_uuid g \<and> u_field_name s = f \<and> s \<noteq> w \<longrightarrow>
                  u_is_validated w \<and> \<not> u_is_validated s
                  \<or> u_is_validated w = u_is_validated s
                    \<and> (u_changed_at s < u_changed_at w
                        \<or> u_changed_at s = u_changed_at w \<and> u_id s < u_id w))"
    unfolding join_device_columns[OF assms] Ball_def mem_device_bucket
    by (auto simp: newer_def)
  show "join_device Effective log g f = None \<longleftrightarrow>
            \<not> (\<exists>s\<in>set log. (u_apply_for_all s = Some False \<or> u_apply_for_all s = None)
                  \<and> u_device_uuid s = g_device_uuid g \<and> u_field_name s = f)"
    unfolding join_device_None device_bucket_empty Bex_def mem_device_bucket
    by auto
next
  assume c: "g_cps_id g = Some c"
  show "join_cps_id mig Effective gold log g f = Some w \<longleftrightarrow>
               w \<in> set log \<and> u_apply_for_all w = Some True
               \<and> (case mig of
                     ApplyForAll \<Rightarrow> u_cps_id w = Some c
                   | DeviceType \<Rightarrow> (\<exists>g'\<in>set gold. u_device_uuid w = g_device_uuid g' \<and> g_cps_id g' = Some c))
               \<and> u_field_name w = f
               \<and> (\<forall>s\<in>set log.
                     u_apply_for_all s = Some True
                     \<and> (case mig of
                           ApplyForAll \<Rightarrow> u_cps_id s = Some c
                         | DeviceType \<Rightarrow> (\<exists>g'\<in>set gold. u_device_uuid s = g_device_uuid g' \<and> g_cps_id g' = Some c))
                     \<and> u_field_name s = f \<and> s \<noteq> w \<longrightarrow>
                     u_is_validated w \<and> \<not> u_is_validated s
                     \<or> u_is_validated w = u_is_validated s
                       \<and> (u_changed_at s < u_changed_at w
                           \<or> u_changed_at s = u_changed_at w \<and> u_id s < u_id w))"
    unfolding join_cps_id_columns[OF assms c] Ball_def mem_cps_id_bucket_columns
    by (auto simp: newer_def)
  show "join_cps_id mig Effective gold log g f = None \<longleftrightarrow>
               \<not> (\<exists>s\<in>set log. u_apply_for_all s = Some True
                     \<and> (case mig of
                           ApplyForAll \<Rightarrow> u_cps_id s = Some c
                         | DeviceType \<Rightarrow> (\<exists>g'\<in>set gold. u_device_uuid s = g_device_uuid g' \<and> g_cps_id g' = Some c))
                     \<and> u_field_name s = f)"
    unfolding join_cps_id_None[OF c] cps_id_bucket_empty Bex_def mem_cps_id_bucket_columns
    by auto
next
  assume h: "{s \<in> set log. (u_apply_for_all s = Some False \<or> u_apply_for_all s = None)
                \<and> u_device_uuid s = g_device_uuid g \<and> u_field_name s = f} = {e5, e9}
            \<and> u_id e5 = 5 \<and> u_id e9 = 9 \<and> u_is_validated e5 \<and> \<not> u_is_validated e9
            \<and> u_changed_at e5 < u_changed_at e9 \<and> u_new_value e5 \<noteq> ''''"
  have "set (device_bucket Effective log (g_device_uuid g) f) =
      {s \<in> set log. (u_apply_for_all s = Some False \<or> u_apply_for_all s = None)
                \<and> u_device_uuid s = g_device_uuid g \<and> u_field_name s = f}"
    by (auto simp: device_bucket_def)
  with h have b: "set (device_bucket Effective log (g_device_uuid g) f) = {e5, e9}"
    by simp
  from h have "order_by Effective e5 e9" by simp
  from first_in_pair[OF b this] have "join_device Effective log g f = Some e5"
    by (simp add: join_device_iff[OF assms])
  with h show "text_column mig Effective gold log g f = Some (u_new_value e5)"
    by (simp add: text_column_selected selected_def non_blank_def)
qed

theorem effective_winner_is_first_of_bucket_witness:
  "distinct (map u_id [override_row 1 ''d1'' ''vendor'' ''A'' False 3 None, override_row 2 ''d1'' ''vendor'' ''B'' True 2 None,
                       override_row 3 ''d1'' ''vendor'' ''C'' True 2 None, override_row 4 ''d1'' ''vendor'' ''D'' True 1 None])
   \<and> join_device Effective
        [override_row 1 ''d1'' ''vendor'' ''A'' False 3 None, override_row 2 ''d1'' ''vendor'' ''B'' True 2 None,
         override_row 3 ''d1'' ''vendor'' ''C'' True 2 None, override_row 4 ''d1'' ''vendor'' ''D'' True 1 None]
        (base_row ''d1'') ''vendor''
       = Some (override_row 3 ''d1'' ''vendor'' ''C'' True 2 None)
   \<and> join_cps_id DeviceType Effective [base_row ''d1'', base_row ''d2'']
        [override_row 1 ''d2'' ''category'' ''OT'' True 1 (Some True),
         override_row 2 ''d1'' ''category'' ''IoT'' True 1 (Some True)] (base_row ''d1'') ''category''
       = Some (override_row 2 ''d1'' ''category'' ''IoT'' True 1 (Some True))
   \<and> text_column ApplyForAll Effective [base_row ''d1'']
        [override_row 5 ''d1'' ''vendor'' ''AcmeCorp'' True 1 None,
         override_row 9 ''d1'' ''vendor'' ''Acme Inc'' False 2 None] (base_row ''d1'') ''vendor''
       = Some ''AcmeCorp''"
proof -
  let ?r1 = "override_row 1 ''d1'' ''vendor'' ''A'' False 3 None"
  let ?r2 = "override_row 2 ''d1'' ''vendor'' ''B'' True 2 None"
  let ?r3 = "override_row 3 ''d1'' ''vendor'' ''C'' True 2 None"
  let ?r4 = "override_row 4 ''d1'' ''vendor'' ''D'' True 1 None"
  let ?q1 = "override_row 1 ''d2'' ''category'' ''OT'' True 1 (Some True)"
  let ?q2 = "override_row 2 ''d1'' ''category'' ''IoT'' True 1 (Some True)"
  let ?e5 = "override_row 5 ''d1'' ''vendor'' ''AcmeCorp'' True 1 None"
  let ?e9 = "override_row 9 ''d1'' ''vendor'' ''Acme Inc'' False 2 None"
  let ?g = "base_row ''d1''"
  let ?gold = "[base_row ''d1'', base_row ''d2'']"
  have dr: "distinct (map u_id [?r1, ?r2, ?r3, ?r4])"
    and dq: "distinct (map u_id [?q1, ?q2])" and de: "distinct (map u_id [?e5, ?e9])"
    by (simp_all add: override_row_def)
  have a: "join_device Effective [?r1, ?r2, ?r3, ?r4] ?g ''vendor'' = Some ?r3"
    by (rule effective_winner_is_first_of_bucket[OF dr, THEN conjunct1, THEN iffD2])
      (simp add: override_row_def base_row_def)
  have b: "join_cps_id DeviceType Effective ?gold [?q1, ?q2] ?g ''category'' = Some ?q2"
    by (rule effective_winner_is_first_of_bucket[OF dq, where c = "''g1''", THEN conjunct2, THEN conjunct2,
          THEN conjunct1, THEN mp, THEN conjunct1, THEN iffD2])
      (simp_all add: override_row_def base_row_def)
  have "text_column ApplyForAll Effective [?g] [?e5, ?e9] ?g ''vendor'' = Some (u_new_value ?e5)"
    by (rule effective_winner_is_first_of_bucket[OF de, where ?e9.0 = ?e9, THEN conjunct2, THEN conjunct2,
          THEN conjunct2, THEN mp])
      (auto simp: override_row_def base_row_def)
  then have c: "text_column ApplyForAll Effective [?g] [?e5, ?e9] ?g ''vendor'' = Some ''AcmeCorp''"
    by (simp add: override_row_def)
  from dr a b c show ?thesis by blast
qed

section \<open>The device-specific override against the other sources\<close>




section \<open>The override for a whole cps_id and the devices of the cps_id\<close>

text \<open>
  C6, as the views have it. With \<open>id\<close> a key of the log, let \<open>e\<close> be an override
  with \<open>apply_for_all = TRUE\<close> for the cps_id \<open>G\<close> and the field \<open>f\<close>, with a value
  other than the empty string. The cps_id of an override is the column \<open>cps_id\<close>
  of the log in the first migration, and the cps_id in the base table of the
  device it was written on in the second. Let \<open>e\<close> come before every other such
  override that the view reads: in the effective view by \<open>is_validated\<close>
  descending, \<open>changed_at\<close> descending, \<open>id\<close> descending; in the validated view,
  where \<open>e\<close> must be validated itself, among the validated ones by \<open>changed_at\<close>
  descending, \<open>id\<close> descending. Then every device of \<open>G\<close> for which no
  device-specific override on \<open>f\<close> with a non-empty value is first among the
  device-specific overrides of the device and field resolves \<open>f\<close> to the value
  of \<open>e\<close>; and a device added to the base table with cps_id \<open>G\<close>, for which the
  log holds no row, resolves \<open>f\<close> to the same value over the unchanged log.
\<close>

theorem group_override_propagates:
  assumes "distinct (map u_id log)"
    and "e \<in> set log"
    and "u_apply_for_all e = Some True"
    and "m = Validated \<longrightarrow> u_is_validated e"
    and "case mig of
           ApplyForAll \<Rightarrow> u_cps_id e = Some G
         | DeviceType \<Rightarrow> (\<exists>g0\<in>set gold. u_device_uuid e = g_device_uuid g0 \<and> g_cps_id g0 = Some G)"
    and "u_field_name e = f"
    and "u_new_value e \<noteq> ''''"
    and "\<forall>s\<in>set log.
           u_apply_for_all s = Some True \<and> (m = Validated \<longrightarrow> u_is_validated s)
           \<and> (case mig of
                 ApplyForAll \<Rightarrow> u_cps_id s = Some G
               | DeviceType \<Rightarrow> (\<exists>g0\<in>set gold. u_device_uuid s = g_device_uuid g0 \<and> g_cps_id g0 = Some G))
           \<and> u_field_name s = f \<and> s \<noteq> e \<longrightarrow>
           m = Effective \<and> u_is_validated e \<and> \<not> u_is_validated s
           \<or> (m = Validated \<or> u_is_validated e = u_is_validated s)
             \<and> (u_changed_at s < u_changed_at e \<or> u_changed_at s = u_changed_at e \<and> u_id s < u_id e)"
  shows "(g_cps_id g = Some G
          \<and> \<not> (\<exists>w\<in>set log.
                  (u_apply_for_all w = Some False \<or> u_apply_for_all w = None)
                  \<and> (m = Validated \<longrightarrow> u_is_validated w)
                  \<and> u_device_uuid w = g_device_uuid g \<and> u_field_name w = f
                  \<and> u_new_value w \<noteq> ''''
                  \<and> (\<forall>s\<in>set log.
                        (u_apply_for_all s = Some False \<or> u_apply_for_all s = None)
                        \<and> (m = Validated \<longrightarrow> u_is_validated s)
                        \<and> u_device_uuid s = g_device_uuid g \<and> u_field_name s = f \<and> s \<noteq> w \<longrightarrow>
                        m = Effective \<and> u_is_validated w \<and> \<not> u_is_validated s
                        \<or> (m = Validated \<or> u_is_validated w = u_is_validated s)
                          \<and> (u_changed_at s < u_changed_at w
                             \<or> u_changed_at s = u_changed_at w \<and> u_id s < u_id w))) \<longrightarrow>
          selected mig m gold log g f = GroupOverride e
          \<and> text_column mig m gold log g f = Some (u_new_value e))
       \<and> (g_cps_id g' = Some G \<and> g_device_uuid g' \<notin> u_device_uuid ` set log \<longrightarrow>
          selected mig m (gold @ [g']) log g' f = GroupOverride e
          \<and> text_column mig m (gold @ [g']) log g' f = Some (u_new_value e))"
proof (intro conjI impI)
  from assms(2-6,8) have fi: "first_in m (cps_id_bucket mig m gold log G f) e"
    unfolding first_in_cps_id_columns[OF assms(1)] by (intro conjI) assumption+
  {
    assume h: "g_cps_id g = Some G
          \<and> \<not> (\<exists>w\<in>set log.
                  (u_apply_for_all w = Some False \<or> u_apply_for_all w = None)
                  \<and> (m = Validated \<longrightarrow> u_is_validated w)
                  \<and> u_device_uuid w = g_device_uuid g \<and> u_field_name w = f
                  \<and> u_new_value w \<noteq> ''''
                  \<and> (\<forall>s\<in>set log.
                        (u_apply_for_all s = Some False \<or> u_apply_for_all s = None)
                        \<and> (m = Validated \<longrightarrow> u_is_validated s)
                        \<and> u_device_uuid s = g_device_uuid g \<and> u_field_name s = f \<and> s \<noteq> w \<longrightarrow>
                        m = Effective \<and> u_is_validated w \<and> \<not> u_is_validated s
                        \<or> (m = Validated \<or> u_is_validated w = u_is_validated s)
                          \<and> (u_changed_at s < u_changed_at w
                             \<or> u_changed_at s = u_changed_at w \<and> u_id s < u_id w)))"
    from h fi have j: "join_cps_id mig m gold log g f = Some e"
      by (simp add: join_cps_id_iff[OF assms(1)])
    have "\<forall>w. first_in m (device_bucket m log (g_device_uuid g) f) w \<longrightarrow> u_new_value w = ''''"
    proof (intro allI impI)
      fix w assume "first_in m (device_bucket m log (g_device_uuid g) f) w"
      then have w: "w \<in> set log \<and> (u_apply_for_all w = Some False \<or> u_apply_for_all w = None)
          \<and> (m = Validated \<longrightarrow> u_is_validated w) \<and> u_device_uuid w = g_device_uuid g \<and> u_field_name w = f
          \<and> (\<forall>s\<in>set log.
                (u_apply_for_all s = Some False \<or> u_apply_for_all s = None)
                \<and> (m = Validated \<longrightarrow> u_is_validated s)
                \<and> u_device_uuid s = g_device_uuid g \<and> u_field_name s = f \<and> s \<noteq> w \<longrightarrow>
                m = Effective \<and> u_is_validated w \<and> \<not> u_is_validated s
                \<or> (m = Validated \<or> u_is_validated w = u_is_validated s)
                  \<and> (u_changed_at s < u_changed_at w
                     \<or> u_changed_at s = u_changed_at w \<and> u_id s < u_id w))"
        unfolding first_in_device_columns[OF assms(1)] .
      show "u_new_value w = ''''"
      proof (rule ccontr)
        assume "u_new_value w \<noteq> ''''"
        with w have "\<exists>w\<in>set log.
                  (u_apply_for_all w = Some False \<or> u_apply_for_all w = None)
                  \<and> (m = Validated \<longrightarrow> u_is_validated w)
                  \<and> u_device_uuid w = g_device_uuid g \<and> u_field_name w = f
                  \<and> u_new_value w \<noteq> ''''
                  \<and> (\<forall>s\<in>set log.
                        (u_apply_for_all s = Some False \<or> u_apply_for_all s = None)
                        \<and> (m = Validated \<longrightarrow> u_is_validated s)
                        \<and> u_device_uuid s = g_device_uuid g \<and> u_field_name s = f \<and> s \<noteq> w \<longrightarrow>
                        m = Effective \<and> u_is_validated w \<and> \<not> u_is_validated s
                        \<or> (m = Validated \<or> u_is_validated w = u_is_validated s)
                          \<and> (u_changed_at s < u_changed_at w
                             \<or> u_changed_at s = u_changed_at w \<and> u_id s < u_id w))"
          by (intro bexI[of _ w]) (intro conjI, (elim conjE, assumption)+)
        with h show False by (elim conjE notE)
      qed
    qed
    from selected_group[OF non_blank_join_device[OF this] j assms(7)]
    show s: "selected mig m gold log g f = GroupOverride e" .
    then show "text_column mig m gold log g f = Some (u_new_value e)"
      by (simp add: text_column_selected)
  }
  {
    assume h: "g_cps_id g' = Some G \<and> g_device_uuid g' \<notin> u_device_uuid ` set log"
    then have "cps_id_bucket mig m (gold @ [g']) log G f = cps_id_bucket mig m gold log G f"
      by (simp add: cps_id_bucket_def cps_id_rows_fresh)
    with fi h have j: "join_cps_id mig m (gold @ [g']) log g' f = Some e"
      by (simp add: join_cps_id_iff[OF assms(1)])
    from h have "join_device m log g' f = None"
      by (simp add: join_device_None device_bucket_fresh)
    then have "non_blank (join_device m log g' f) = None"
      by (simp add: non_blank_def)
    from selected_group[OF this j assms(7)]
    show s: "selected mig m (gold @ [g']) log g' f = GroupOverride e" .
    then show "text_column mig m (gold @ [g']) log g' f = Some (u_new_value e)"
      by (simp add: text_column_selected)
  }
qed

text \<open>
  The claim as stated fails: the log holds two overrides with \<open>apply_for_all = TRUE\<close>
  on the category, written on \<open>d1\<close> of cps_id \<open>g1\<close>: \<open>OT\<close>, validated, of time 1,
  and \<open>IoT\<close>, not validated, of time 2. No device has a device-specific override.
  The validated one is first, so \<open>d1\<close> and \<open>d2\<close> resolve the category to \<open>OT\<close> in
  the effective view of both migrations, and not to \<open>IoT\<close>, the value of the
  override written last.
\<close>

theorem group_override_counterexample:
  "(override_row 2 ''d1'' ''category'' ''IoT'' False 2 (Some True))
     \<in> set [override_row 1 ''d1'' ''category'' ''OT'' True 1 (Some True),
            override_row 2 ''d1'' ''category'' ''IoT'' False 2 (Some True)]
   \<and> map u_apply_for_all [override_row 1 ''d1'' ''category'' ''OT'' True 1 (Some True),
                          override_row 2 ''d1'' ''category'' ''IoT'' False 2 (Some True)]
       = [Some True, Some True]
   \<and> u_cps_id (override_row 2 ''d1'' ''category'' ''IoT'' False 2 (Some True)) = g_cps_id (base_row ''d2'')
   \<and> u_device_uuid (override_row 2 ''d1'' ''category'' ''IoT'' False 2 (Some True)) = g_device_uuid (base_row ''d1'')
   \<and> g_cps_id (base_row ''d1'') = g_cps_id (base_row ''d2'')
   \<and> u_field_name (override_row 2 ''d1'' ''category'' ''IoT'' False 2 (Some True)) = ''category''
   \<and> u_new_value (override_row 2 ''d1'' ''category'' ''IoT'' False 2 (Some True)) = ''IoT''
   \<and> text_column ApplyForAll Effective [base_row ''d1'', base_row ''d2'']
        [override_row 1 ''d1'' ''category'' ''OT'' True 1 (Some True),
         override_row 2 ''d1'' ''category'' ''IoT'' False 2 (Some True)] (base_row ''d2'') ''category''
       = Some ''OT''
   \<and> text_column DeviceType Effective [base_row ''d1'', base_row ''d2'']
        [override_row 1 ''d1'' ''category'' ''OT'' True 1 (Some True),
         override_row 2 ''d1'' ''category'' ''IoT'' False 2 (Some True)] (base_row ''d2'') ''category''
       = Some ''OT''
   \<and> text_column DeviceType Effective [base_row ''d1'', base_row ''d2'']
        [override_row 1 ''d1'' ''category'' ''OT'' True 1 (Some True),
         override_row 2 ''d1'' ''category'' ''IoT'' False 2 (Some True)] (base_row ''d1'') ''category''
       = Some ''OT''"
  by (simp add: text_column_def join_device_def join_cps_id_def latest_device_def latest_cps_id_def with_rn_def
      row_number_def left_join_rn1_def nullif_def override_row_def base_row_def newer_def sql_eq_def)

theorem group_override_propagates_witness:
  "distinct (map u_id [override_row 1 ''d1'' ''category'' ''OT'' True 1 (Some True),
                       override_row 2 ''d1'' ''category'' ''IoT'' False 2 (Some True),
                       override_row 3 ''d1'' ''category'' '''' True 3 (Some False)])
   \<and> u_apply_for_all (override_row 1 ''d1'' ''category'' ''OT'' True 1 (Some True)) = Some True
   \<and> text_column DeviceType Effective [base_row ''d1'', base_row ''d2'']
        [override_row 1 ''d1'' ''category'' ''OT'' True 1 (Some True),
         override_row 2 ''d1'' ''category'' ''IoT'' False 2 (Some True),
         override_row 3 ''d1'' ''category'' '''' True 3 (Some False)] (base_row ''d1'') ''category'' = Some ''OT''
   \<and> ''d3'' \<notin> u_device_uuid ` set [override_row 1 ''d1'' ''category'' ''OT'' True 1 (Some True),
                                      override_row 2 ''d1'' ''category'' ''IoT'' False 2 (Some True),
                                      override_row 3 ''d1'' ''category'' '''' True 3 (Some False)]
   \<and> text_column DeviceType Effective ([base_row ''d1'', base_row ''d2''] @ [base_row ''d3''])
        [override_row 1 ''d1'' ''category'' ''OT'' True 1 (Some True),
         override_row 2 ''d1'' ''category'' ''IoT'' False 2 (Some True),
         override_row 3 ''d1'' ''category'' '''' True 3 (Some False)] (base_row ''d3'') ''category'' = Some ''OT''"
proof -
  let ?e = "override_row 1 ''d1'' ''category'' ''OT'' True 1 (Some True)"
  let ?log = "[?e, override_row 2 ''d1'' ''category'' ''IoT'' False 2 (Some True),
               override_row 3 ''d1'' ''category'' '''' True 3 (Some False)]"
  let ?gold = "[base_row ''d1'', base_row ''d2'']"
  have d: "distinct (map u_id ?log)"
    by (simp add: override_row_def)
  have a: "u_apply_for_all ?e = Some True"
    by (simp add: override_row_def)
  have v: "u_new_value ?e \<noteq> ''''"
    by (simp add: override_row_def)
  have h3: "g_cps_id (base_row ''d3'') = Some ''g1'' \<and> g_device_uuid (base_row ''d3'') \<notin> u_device_uuid ` set ?log"
    by (simp add: override_row_def base_row_def)
  have r: "(g_cps_id (base_row ''d1'') = Some ''g1''
          \<and> \<not> (\<exists>w\<in>set ?log.
                  (u_apply_for_all w = Some False \<or> u_apply_for_all w = None)
                  \<and> (Effective = Validated \<longrightarrow> u_is_validated w)
                  \<and> u_device_uuid w = g_device_uuid (base_row ''d1'') \<and> u_field_name w = ''category''
                  \<and> u_new_value w \<noteq> ''''
                  \<and> (\<forall>s\<in>set ?log.
                        (u_apply_for_all s = Some False \<or> u_apply_for_all s = None)
                        \<and> (Effective = Validated \<longrightarrow> u_is_validated s)
                        \<and> u_device_uuid s = g_device_uuid (base_row ''d1'') \<and> u_field_name s = ''category''
                        \<and> s \<noteq> w \<longrightarrow>
                        Effective = Effective \<and> u_is_validated w \<and> \<not> u_is_validated s
                        \<or> (Effective = Validated \<or> u_is_validated w = u_is_validated s)
                          \<and> (u_changed_at s < u_changed_at w
                             \<or> u_changed_at s = u_changed_at w \<and> u_id s < u_id w))) \<longrightarrow>
          selected DeviceType Effective ?gold ?log (base_row ''d1'') ''category'' = GroupOverride ?e
          \<and> text_column DeviceType Effective ?gold ?log (base_row ''d1'') ''category'' = Some (u_new_value ?e))
       \<and> (g_cps_id (base_row ''d3'') = Some ''g1'' \<and> g_device_uuid (base_row ''d3'') \<notin> u_device_uuid ` set ?log \<longrightarrow>
          selected DeviceType Effective (?gold @ [base_row ''d3'']) ?log (base_row ''d3'') ''category''
            = GroupOverride ?e
          \<and> text_column DeviceType Effective (?gold @ [base_row ''d3'']) ?log (base_row ''d3'') ''category''
              = Some (u_new_value ?e))"
    by (rule group_override_propagates[OF d _ a _ _ _ v]) (simp_all add: override_row_def base_row_def)
  have h1: "g_cps_id (base_row ''d1'') = Some ''g1''
          \<and> \<not> (\<exists>w\<in>set ?log.
                  (u_apply_for_all w = Some False \<or> u_apply_for_all w = None)
                  \<and> (Effective = Validated \<longrightarrow> u_is_validated w)
                  \<and> u_device_uuid w = g_device_uuid (base_row ''d1'') \<and> u_field_name w = ''category''
                  \<and> u_new_value w \<noteq> ''''
                  \<and> (\<forall>s\<in>set ?log.
                        (u_apply_for_all s = Some False \<or> u_apply_for_all s = None)
                        \<and> (Effective = Validated \<longrightarrow> u_is_validated s)
                        \<and> u_device_uuid s = g_device_uuid (base_row ''d1'') \<and> u_field_name s = ''category''
                        \<and> s \<noteq> w \<longrightarrow>
                        Effective = Effective \<and> u_is_validated w \<and> \<not> u_is_validated s
                        \<or> (Effective = Validated \<or> u_is_validated w = u_is_validated s)
                          \<and> (u_changed_at s < u_changed_at w
                             \<or> u_changed_at s = u_changed_at w \<and> u_id s < u_id w)))"
    by (simp add: override_row_def base_row_def)
  from r h1 h3
  have "text_column DeviceType Effective ?gold ?log (base_row ''d1'') ''category'' = Some (u_new_value ?e)
      \<and> text_column DeviceType Effective (?gold @ [base_row ''d3'']) ?log (base_row ''d3'') ''category''
          = Some (u_new_value ?e)"
    by blast
  with d a h3 show ?thesis
    by (simp add: override_row_def base_row_def)
qed

section \<open>Listing the changes\<close>

lemma js_includes_sublist: "js_includes hay needle \<longleftrightarrow> sublist needle hay"
  by (induction hay) (simp_all add: sublist_Cons_right)

lemma in_date_range_columns:
  "in_date_range setHours_23_59_59_999 dateRange c \<longleftrightarrow>
     (case dr_from dateRange of None \<Rightarrow> True | Some from \<Rightarrow> from \<le> c_changed_at c)
     \<and> (case dr_to dateRange of None \<Rightarrow> True | Some to \<Rightarrow> c_changed_at c \<le> setHours_23_59_59_999 to)"
  by (auto simp: in_date_range_def Let_def split: option.splits)

lemma editor_matches_columns:
  "editor_matches toLowerCase filters c \<longleftrightarrow>
     sublist (toLowerCase (f_editor filters))
       (toLowerCase (case c_editor_user_name c of None \<Rightarrow> '''' | Some name \<Rightarrow> name))"
  by (simp add: editor_matches_def or_empty_def js_includes_sublist)

lemma field_name_matches_columns:
  "field_name_matches toLowerCase filters c \<longleftrightarrow>
     sublist (toLowerCase (f_field_name filters))
       (toLowerCase (case c_field_name c of None \<Rightarrow> '''' | Some name \<Rightarrow> name))"
  by (simp add: field_name_matches_def or_empty_def js_includes_sublist)

lemma vendor_matches_columns:
  "vendor_matches toLowerCase filters c \<longleftrightarrow>
     sublist (toLowerCase (f_vendor filters))
       (toLowerCase (case c_vendor c of None \<Rightarrow> '''' | Some name \<Rightarrow> name))"
  by (simp add: vendor_matches_def or_empty_def js_includes_sublist)

lemma apply_for_all_matches_columns:
  "apply_for_all_matches wanted c \<longleftrightarrow>
     wanted = (c_apply_for_all c = JBool True \<or> c_apply_for_all c = JString ''true'')"
  by (auto simp: apply_for_all_matches_def Let_def)

lemma filter_if: "(if b then filter P xs else xs) = filter (\<lambda>x. b \<longrightarrow> P x) xs"
  by simp

lemma filter_case_option:
  "(case w of None \<Rightarrow> xs | Some v \<Rightarrow> filter (P v) xs) = filter (\<lambda>x. case w of None \<Rightarrow> True | Some v \<Rightarrow> P v x) xs"
  by (cases w) simp_all

lemma applyFilters_columns:
  "applyFilters toLowerCase setHours_23_59_59_999 dateRange filters data =
     take 30 (filter (\<lambda>c.
         (case dr_from dateRange of None \<Rightarrow> True | Some from \<Rightarrow> from \<le> c_changed_at c)
       \<and> (case dr_to dateRange of None \<Rightarrow> True | Some to \<Rightarrow> c_changed_at c \<le> setHours_23_59_59_999 to)
       \<and> (f_editor filters = '''' \<or>
            sublist (toLowerCase (f_editor filters))
              (toLowerCase (case c_editor_user_name c of None \<Rightarrow> '''' | Some name \<Rightarrow> name)))
       \<and> (f_field_name filters = '''' \<or>
            sublist (toLowerCase (f_field_name filters))
              (toLowerCase (case c_field_name c of None \<Rightarrow> '''' | Some name \<Rightarrow> name)))
       \<and> (f_vendor filters = '''' \<or>
            sublist (toLowerCase (f_vendor filters))
              (toLowerCase (case c_vendor c of None \<Rightarrow> '''' | Some name \<Rightarrow> name)))
       \<and> (case f_apply_for_all filters of
             None \<Rightarrow> True
           | Some wanted \<Rightarrow> wanted = (c_apply_for_all c = JBool True \<or> c_apply_for_all c = JString ''true'')))
       data)"
  unfolding applyFilters_def Let_def filter_if filter_case_option filter_filter
    in_date_range_columns editor_matches_columns field_name_matches_columns vendor_matches_columns
    apply_for_all_matches_columns
  by (intro arg_cong[where f = "take 30"] filter_cong refl) (auto split: option.splits)

lemma ListAll_most_recent_first:
  "sorted_wrt (\<lambda>a b. c_changed_at b < c_changed_at a \<or> c_changed_at b = c_changed_at a \<and> c_id b \<le> c_id a)
     (ListAll entries)"
proof -
  have "sorted (map (\<lambda>c. (- c_changed_at c, - c_id c)) (ListAll entries))"
    unfolding ListAll_def by (rule sorted_sort_key)
  then have "sorted_wrt (\<lambda>a b. (- c_changed_at a, - c_id a) \<le> (- c_changed_at b, - c_id b)) (ListAll entries)"
    by (simp only: sorted_map)
  then show ?thesis
    by (rule sorted_wrt_mono_rel[rotated]) auto
qed

lemma subseq_take: "subseq (take n xs) xs"
  by (rule prefix_imp_subseq) (rule take_is_prefix)

lemma changes_most_recent_first:
  assumes "int n < k"
  shows "sorted (map (\<lambda>c. (- c_changed_at c, - c_id c))
           (map (\<lambda>i. change_row (k - int i) (k - int i) ''Bob'') [0..<n] @ [change_row 1 1 ''Ann'']))"
proof -
  have "sorted_wrt (\<lambda>x y. (int x - k, int x - k) \<le> (int y - k, int y - k)) [0..<n]"
    by (rule sorted_wrt_mono_rel[OF _ sorted_wrt_upt]) simp
  then have "sorted (map (\<lambda>i. (int i - k, int i - k)) [0..<n])"
    by (simp only: sorted_map)
  moreover have "\<forall>i\<in>set [0..<n]. (int i - k, int i - k) \<le> (- 1, - 1)"
    using assms by auto
  ultimately show ?thesis
    by (simp add: sorted_append change_row_def comp_def)
qed

lemma ListAll_thousand_and_one_changes: "ListAll thousand_and_one_changes = thousand_and_one_changes"
proof -
  have "int 1000 < 1001"
    by simp
  from changes_most_recent_first[OF this] show ?thesis
    unfolding ListAll_def thousand_and_one_changes_def by (rule sort_key_id_if_sorted)
qed

lemma take_thousand_changes:
  "take 1000 thousand_and_one_changes = map (\<lambda>i. change_row (1001 - int i) (1001 - int i) ''Bob'') [0..<1000]"
  unfolding thousand_and_one_changes_def by (simp only: take_append length_map length_upt) simp

lemma Bob_is_no_ann: "js_includes (ascii_toLowerCase ''Bob'') (ascii_toLowerCase ''ann'') = False"
  by code_simp

lemma Ann_is_ann: "js_includes (ascii_toLowerCase ''Ann'') (ascii_toLowerCase ''ann'') = True"
  by code_simp

lemma applyFilters_editor_ann:
  "applyFilters ascii_toLowerCase utc_setHours_23_59_59_999 \<lparr>dr_from = None, dr_to = None\<rparr>
     \<lparr>f_editor = ''ann'', f_field_name = '''', f_vendor = '''', f_apply_for_all = None\<rparr> data =
   take 30 (filter (editor_matches ascii_toLowerCase
     \<lparr>f_editor = ''ann'', f_field_name = '''', f_vendor = '''', f_apply_for_all = None\<rparr>) data)"
  by (simp add: applyFilters_def Let_def)

lemma filter_Bob:
  "filter (editor_matches ascii_toLowerCase
       \<lparr>f_editor = ''ann'', f_field_name = '''', f_vendor = '''', f_apply_for_all = None\<rparr>)
     (map (\<lambda>i. change_row (1001 - int i) (1001 - int i) ''Bob'') [0..<1000]) = []"
  unfolding filter_empty_conv by (auto simp add: editor_matches_def change_row_def or_empty_def Bob_is_no_ann)

text \<open>
  C9, as the page has it. \<open>ListChanges\<close> asks the server for the first 1000
  entries, most recent \<open>changed_at\<close> first and, on equal times, larger id first;
  it keeps of those the entries that pass every filter that is set (the date
  range, the editor, field name and vendor as substrings without regard to case,
  the scope), in the order received, and returns the first 30 of them. The
  entries retrieved are a rearrangement of the stored ones in that order, so the
  result is a subsequence of it, ordered the same way, of at most 30 entries.
\<close>

theorem list_changes_filters_then_truncates:
  "ListChanges toLowerCase setHours_23_59_59_999 dateRange filters entries =
     take 30 (filter (\<lambda>c.
         (case dr_from dateRange of None \<Rightarrow> True | Some from \<Rightarrow> from \<le> c_changed_at c)
       \<and> (case dr_to dateRange of None \<Rightarrow> True | Some to \<Rightarrow> c_changed_at c \<le> setHours_23_59_59_999 to)
       \<and> (f_editor filters = '''' \<or>
            sublist (toLowerCase (f_editor filters))
              (toLowerCase (case c_editor_user_name c of None \<Rightarrow> '''' | Some name \<Rightarrow> name)))
       \<and> (f_field_name filters = '''' \<or>
            sublist (toLowerCase (f_field_name filters))
              (toLowerCase (case c_field_name c of None \<Rightarrow> '''' | Some name \<Rightarrow> name)))
       \<and> (f_vendor filters = '''' \<or>
            sublist (toLowerCase (f_vendor filters))
              (toLowerCase (case c_vendor c of None \<Rightarrow> '''' | Some name \<Rightarrow> name)))
       \<and> (case f_apply_for_all filters of
             None \<Rightarrow> True
           | Some wanted \<Rightarrow> wanted = (c_apply_for_all c = JBool True \<or> c_apply_for_all c = JString ''true'')))
       (take 1000 (ListAll entries)))
   \<and> mset (ListAll entries) = mset entries
   \<and> sorted_wrt (\<lambda>a b. c_changed_at b < c_changed_at a \<or> c_changed_at b = c_changed_at a \<and> c_id b \<le> c_id a)
       (ListAll entries)
   \<and> subseq (ListChanges toLowerCase setHours_23_59_59_999 dateRange filters entries) (ListAll entries)
   \<and> sorted_wrt (\<lambda>a b. c_changed_at b < c_changed_at a \<or> c_changed_at b = c_changed_at a \<and> c_id b \<le> c_id a)
       (ListChanges toLowerCase setHours_23_59_59_999 dateRange filters entries)
   \<and> length (ListChanges toLowerCase setHours_23_59_59_999 dateRange filters entries) \<le> 30"
proof -
  let ?P = "\<lambda>c.
         (case dr_from dateRange of None \<Rightarrow> True | Some from \<Rightarrow> from \<le> c_changed_at c)
       \<and> (case dr_to dateRange of None \<Rightarrow> True | Some to \<Rightarrow> c_changed_at c \<le> setHours_23_59_59_999 to)
       \<and> (f_editor filters = '''' \<or>
            sublist (toLowerCase (f_editor filters))
              (toLowerCase (case c_editor_user_name c of None \<Rightarrow> '''' | Some name \<Rightarrow> name)))
       \<and> (f_field_name filters = '''' \<or>
            sublist (toLowerCase (f_field_name filters))
              (toLowerCase (case c_field_name c of None \<Rightarrow> '''' | Some name \<Rightarrow> name)))
       \<and> (f_vendor filters = '''' \<or>
            sublist (toLowerCase (f_vendor filters))
              (toLowerCase (case c_vendor c of None \<Rightarrow> '''' | Some name \<Rightarrow> name)))
       \<and> (case f_apply_for_all filters of
             None \<Rightarrow> True
           | Some wanted \<Rightarrow> wanted = (c_apply_for_all c = JBool True \<or> c_apply_for_all c = JString ''true''))"
  let ?R = "\<lambda>a b. c_changed_at b < c_changed_at a \<or> c_changed_at b = c_changed_at a \<and> c_id b \<le> c_id a"
  have l: "ListChanges toLowerCase setHours_23_59_59_999 dateRange filters entries =
      take 30 (filter ?P (take 1000 (ListAll entries)))"
    by (simp only: ListChanges_def getAllChanges_def applyFilters_columns)
  have m: "mset (ListAll entries) = mset entries"
    by (simp add: ListAll_def)
  have s: "sorted_wrt ?R (ListAll entries)"
    by (rule ListAll_most_recent_first)
  have "subseq (filter ?P (take 1000 (ListAll entries))) (take 1000 (ListAll entries))"
    by (rule subseq_filter_left)
  from subseq_order.order_trans[OF subseq_take this]
  have "subseq (take 30 (filter ?P (take 1000 (ListAll entries)))) (take 1000 (ListAll entries))" .
  from subseq_order.order_trans[OF this subseq_take]
  have q: "subseq (take 30 (filter ?P (take 1000 (ListAll entries)))) (ListAll entries)" .
  have r: "sorted_wrt ?R (take 30 (filter ?P (take 1000 (ListAll entries))))"
    by (intro sorted_wrt_take sorted_wrt_filter s)
  have n: "length (take 30 (filter ?P (take 1000 (ListAll entries)))) \<le> 30"
    by simp
  from m s q r n show ?thesis
    unfolding l by (intro conjI refl)
qed

text \<open>
  The claim as stated fails: the entries are cut at 1000 before they are filtered.
  Of 1001 stored changes the oldest is by Ann and the others by Bob. Filtering
  the changes for the editor \<open>ann\<close> and then truncating to 30 gives the change by
  Ann; the page lists nothing, since the change by Ann is not among the 1000
  entries it receives.
\<close>

theorem list_changes_counterexample:
  "length (ListAll thousand_and_one_changes) = 1001
   \<and> last (ListAll thousand_and_one_changes) = change_row 1 1 ''Ann''
   \<and> applyFilters ascii_toLowerCase utc_setHours_23_59_59_999 \<lparr>dr_from = None, dr_to = None\<rparr>
        \<lparr>f_editor = ''ann'', f_field_name = '''', f_vendor = '''', f_apply_for_all = None\<rparr>
        (ListAll thousand_and_one_changes)
       = [change_row 1 1 ''Ann'']
   \<and> ListChanges ascii_toLowerCase utc_setHours_23_59_59_999 \<lparr>dr_from = None, dr_to = None\<rparr>
        \<lparr>f_editor = ''ann'', f_field_name = '''', f_vendor = '''', f_apply_for_all = None\<rparr>
        thousand_and_one_changes
       = []"
proof -
  have a: "length (ListAll thousand_and_one_changes) = 1001"
    unfolding ListAll_thousand_and_one_changes by (simp add: thousand_and_one_changes_def)
  have b: "last (ListAll thousand_and_one_changes) = change_row 1 1 ''Ann''"
    unfolding ListAll_thousand_and_one_changes by (simp add: thousand_and_one_changes_def)
  have c: "applyFilters ascii_toLowerCase utc_setHours_23_59_59_999 \<lparr>dr_from = None, dr_to = None\<rparr>
        \<lparr>f_editor = ''ann'', f_field_name = '''', f_vendor = '''', f_apply_for_all = None\<rparr>
        (ListAll thousand_and_one_changes)
       = [change_row 1 1 ''Ann'']"
    unfolding ListAll_thousand_and_one_changes applyFilters_editor_ann
    unfolding thousand_and_one_changes_def filter_append filter_Bob
    by (simp add: editor_matches_def change_row_def or_empty_def Ann_is_ann)
  have d: "ListChanges ascii_toLowerCase utc_setHours_23_59_59_999 \<lparr>dr_from = None, dr_to = None\<rparr>
        \<lparr>f_editor = ''ann'', f_field_name = '''', f_vendor = '''', f_apply_for_all = None\<rparr>
        thousand_and_one_changes
       = []"
    unfolding ListChanges_def getAllChanges_def ListAll_thousand_and_one_changes applyFilters_editor_ann
      take_thousand_changes filter_Bob
    by simp
  from a b c d show ?thesis
    by (intro conjI)
qed

theorem list_changes_filters_then_truncates_witness:
  "ListChanges ascii_toLowerCase utc_setHours_23_59_59_999 \<lparr>dr_from = Some 15, dr_to = Some 5\<rparr>
      \<lparr>f_editor = ''ann'', f_field_name = ''Cat'', f_vendor = ''acme'', f_apply_for_all = Some False\<rparr>
      [change_row 1 10 ''Ann'', change_row 2 30 ''Bob'', change_row 3 20 ''Joanna'', change_row 4 20 ''ANN'',
       change_row 5 90000000 ''Anna'',
       (change_row 6 25 ''Hannah'')\<lparr>c_vendor := Some ''Globex''\<rparr>,
       (change_row 7 26 ''Anne'')\<lparr>c_field_name := Some ''vendor''\<rparr>,
       (change_row 8 27 ''Susanne'')\<lparr>c_apply_for_all := JString ''true''\<rparr>]
     = [change_row 4 20 ''ANN'', change_row 3 20 ''Joanna'']"
proof -
  let ?entries = "[change_row 1 10 ''Ann'', change_row 2 30 ''Bob'', change_row 3 20 ''Joanna'',
                   change_row 4 20 ''ANN'', change_row 5 90000000 ''Anna'',
                   (change_row 6 25 ''Hannah'')\<lparr>c_vendor := Some ''Globex''\<rparr>,
                   (change_row 7 26 ''Anne'')\<lparr>c_field_name := Some ''vendor''\<rparr>,
                   (change_row 8 27 ''Susanne'')\<lparr>c_apply_for_all := JString ''true''\<rparr>]"
  let ?dr = "\<lparr>dr_from = Some 15, dr_to = Some 5\<rparr>"
  let ?fs = "\<lparr>f_editor = ''ann'', f_field_name = ''Cat'', f_vendor = ''acme'', f_apply_for_all = Some False\<rparr>"
  have r: "ListAll ?entries =
      [change_row 5 90000000 ''Anna'', change_row 2 30 ''Bob'',
       (change_row 8 27 ''Susanne'')\<lparr>c_apply_for_all := JString ''true''\<rparr>,
       (change_row 7 26 ''Anne'')\<lparr>c_field_name := Some ''vendor''\<rparr>,
       (change_row 6 25 ''Hannah'')\<lparr>c_vendor := Some ''Globex''\<rparr>,
       change_row 4 20 ''ANN'', change_row 3 20 ''Joanna'', change_row 1 10 ''Ann'']"
    by (simp add: ListAll_def change_row_def)
  have e: "ListChanges ascii_toLowerCase utc_setHours_23_59_59_999 ?dr ?fs ?entries =
     take 30 (filter (\<lambda>c.
         (case dr_from ?dr of None \<Rightarrow> True | Some from \<Rightarrow> from \<le> c_changed_at c)
       \<and> (case dr_to ?dr of None \<Rightarrow> True | Some to \<Rightarrow> c_changed_at c \<le> utc_setHours_23_59_59_999 to)
       \<and> (f_editor ?fs = '''' \<or>
            sublist (ascii_toLowerCase (f_editor ?fs))
              (ascii_toLowerCase (case c_editor_user_name c of None \<Rightarrow> '''' | Some name \<Rightarrow> name)))
       \<and> (f_field_name ?fs = '''' \<or>
            sublist (ascii_toLowerCase (f_field_name ?fs))
              (ascii_toLowerCase (case c_field_name c of None \<Rightarrow> '''' | Some name \<Rightarrow> name)))
       \<and> (f_vendor ?fs = '''' \<or>
            sublist (ascii_toLowerCase (f_vendor ?fs))
              (ascii_toLowerCase (case c_vendor c of None \<Rightarrow> '''' | Some name \<Rightarrow> name)))
       \<and> (case f_apply_for_all ?fs of
             None \<Rightarrow> True
           | Some wanted \<Rightarrow> wanted = (c_apply_for_all c = JBool True \<or> c_apply_for_all c = JString ''true'')))
       (take 1000 (ListAll ?entries)))"
    using list_changes_filters_then_truncates[of ascii_toLowerCase utc_setHours_23_59_59_999 ?dr ?fs ?entries]
    by (rule conjunct1)
  show ?thesis
    unfolding e r by code_simp
qed

end
